theory Spec2Isabelle
  imports Complex_Main "HOL-Library.Sublist"
begin

text \<open>
  The classes \<^verbatim>\<open>IDBBatchedTransactionLog\<close> and \<^verbatim>\<open>IDBSimpleTransactionLog\<close>: an
  append-only log over IndexedDB that commits its entries in batches, and one that
  commits each entry as it is appended.  Each
  method is a function of the instance and of the durable world, and returns both as
  the method leaves them together with its result or the exception it throws.
\<close>

section \<open>Errors\<close>

text \<open>
  Every failure of the two log classes is a JavaScript exception.  The classes throw
  \<^verbatim>\<open>new Error(M)\<close> for a message \<^verbatim>\<open>M\<close>; the store throws DOMExceptions; a user
  callback may throw anything, a string here.
\<close>

datatype dom_exception = DataError | InvalidStateError | AbortError

text \<open>
  Modelled from the spec: the message constants \<^verbatim>\<open>LOG_CLOSED_MESSAGE\<close>,
  \<^verbatim>\<open>LOG_ALREADY_OPEN_MESSAGE\<close>, \<^verbatim>\<open>LOG_ALREADY_CLOSED_MESSAGE\<close>,
  \<^verbatim>\<open>LOG_OPEN_CANNOT_CLEAR_MESSAGE\<close>, \<^verbatim>\<open>INVALID_SEQUENCE_ID_MESSAGE\<close> and
  \<^verbatim>\<open>FAILED_TO_COMMIT_TRANSACTIONS_MESSAGE\<close> are imported from the package
  \<^verbatim>\<open>@mightylittle/transaction-log\<close>; the spec's taxonomy names them \<^verbatim>\<open>LogClosed\<close>,
  \<^verbatim>\<open>AlreadyOpen\<close>, \<^verbatim>\<open>AlreadyClosed\<close>, \<^verbatim>\<open>CannotClearWhileOpen\<close>, \<^verbatim>\<open>InvalidSequenceId\<close>
  and \<^verbatim>\<open>CommitFailed\<close> and treats them as pairwise distinct.  Each is a constructor
  here.  \<^verbatim>\<open>TRANSACTION_NOT_FOUND\<close> is the literal \<^verbatim>\<open>"Transaction not found."\<close> and
  \<^verbatim>\<open>DB_NAME_MUST_BE_SET\<close> the literal \<^verbatim>\<open>"db-name must be set"\<close> of the source.
\<close>

datatype error =
    LOG_CLOSED
  | LOG_ALREADY_OPEN
  | LOG_ALREADY_CLOSED
  | LOG_OPEN_CANNOT_CLEAR
  | INVALID_SEQUENCE_ID
  | FAILED_TO_COMMIT_TRANSACTIONS
  | TRANSACTION_NOT_FOUND
  | DB_NAME_MUST_BE_SET
  | DOMException dom_exception
  | Thrown string

section \<open>Data model\<close>

text \<open>
  \<^verbatim>\<open>performance.now()\<close> is a reading of the environment's clock; every operation that
  reads it takes the reading as an argument.  Nothing in the code computes with it.
\<close>

type_synonym timestamp = real

text \<open>
  Modelled from the spec: the types \<^verbatim>\<open>Transaction<T>\<close>, \<^verbatim>\<open>Commit\<close> and
  \<^verbatim>\<open>CommitInfo<T>\<close> are declared in the package \<^verbatim>\<open>@mightylittle/transaction-log\<close>;
  their fields are those of the spec's data model and of the object literals of the
  source.  The \<^verbatim>\<open>id\<close> of a transaction and of a commit is absent on the object that
  \<^verbatim>\<open>append\<close> and \<^verbatim>\<open>commit\<close> build and is filled in by the store (key path
  \<^verbatim>\<open>"id"\<close>).  \<^verbatim>\<open>CommitInfo<T>\<close> is what \<^verbatim>\<open>getSeqRangeCommits\<close> returns.
\<close>

record 'a Transaction =
  t_id :: "nat option"
  t_time :: timestamp
  t_data :: 'a

record Commit =
  c_id :: "nat option"
  c_time :: timestamp
  c_transactions :: "nat list"

record 'a CommitInfo =
  ci_id :: nat
  ci_time :: timestamp
  ci_transactions :: "'a Transaction list"

section \<open>The store: IndexedDB as the classes use it\<close>

text \<open>
  Modelled from the spec: the persistent store, which the spec lists as an external
  collaborator with \<^verbatim>\<open>add\<close>, \<^verbatim>\<open>get\<close>, \<^verbatim>\<open>count\<close> and \<^verbatim>\<open>openCursor\<close> over
  auto-incrementing integer keys and atomic transactions.  The classes reach it
  through the \<^verbatim>\<open>idb\<close> wrapper of the browser's IndexedDB; this section states what
  the calls they make do, after the IndexedDB standard (\<^verbatim>\<open>idb\<close> adds promises and
  changes none of it).

  An object store created with \<^verbatim>\<open>{keyPath: "id", autoIncrement: true}\<close> holds its
  records in ascending key order and owns a key generator.  The generator's current
  number starts at 1; \<open>lastKey\<close> is the current number minus one, so the next key
  \<open>Suc lastKey\<close> is never 0.
\<close>

record 'v ObjectStore =
  records :: "(nat \<times> 'v) list"
  lastKey :: nat

definition createObjectStore :: "'v ObjectStore" where
  "createObjectStore = \<lparr>records = [], lastKey = 0\<rparr>"

text \<open>
  \<^verbatim>\<open>store.add(value)\<close> for a value without an id (every value the classes store: they
  build \<^verbatim>\<open>{time, data}\<close> and \<^verbatim>\<open>{time, transactions}\<close>): the generator yields the
  key, the key is written into the stored copy at the key path (\<open>inject\<close>), and the
  record goes after all the records there are.  The result is the key.
\<close>

definition store_add ::
  "(nat \<Rightarrow> 'v \<Rightarrow> 'v) \<Rightarrow> 'v ObjectStore \<Rightarrow> 'v \<Rightarrow> nat \<times> 'v ObjectStore" where
  "store_add inject s v =
     (let k = Suc (lastKey s)
      in (k, \<lparr>records = records s @ [(k, inject k v)], lastKey = k\<rparr>))"

definition store_count :: "'v ObjectStore \<Rightarrow> nat" where
  "store_count s = length (records s)"

definition store_get :: "'v ObjectStore \<Rightarrow> nat \<Rightarrow> 'v option" where
  "store_get s k = map_of (records s) k"

text \<open>
  Key ranges.  \<^verbatim>\<open>IDBKeyRange.bound(lower, upper, false, false)\<close> is the closed interval
  and throws a \<^verbatim>\<open>DataError\<close> when \<^verbatim>\<open>lower > upper\<close>;
  \<^verbatim>\<open>IDBKeyRange.lowerBound(lower, false)\<close> is closed below and unbounded above.
\<close>

datatype IDBKeyRange = Bound int int | LowerBound int

definition IDBKeyRange_bound :: "int \<Rightarrow> int \<Rightarrow> error + IDBKeyRange" where
  "IDBKeyRange_bound lower upper =
     (if upper < lower then Inl (DOMException DataError) else Inr (Bound lower upper))"

definition IDBKeyRange_lowerBound :: "int \<Rightarrow> IDBKeyRange" where
  "IDBKeyRange_lowerBound lower = LowerBound lower"

fun includes_key :: "IDBKeyRange \<Rightarrow> nat \<Rightarrow> bool" where
  "includes_key (Bound lower upper) k = (lower \<le> int k \<and> int k \<le> upper)"
| "includes_key (LowerBound lower) k = (lower \<le> int k)"

text \<open>
  \<^verbatim>\<open>openCursor(range)\<close> followed by \<^verbatim>\<open>cursor.continue()\<close> until the cursor is null
  visits, in the store's order, the records whose key is in the range;
  \<^verbatim>\<open>openCursor()\<close> visits them all.
\<close>

definition openCursor :: "'v ObjectStore \<Rightarrow> IDBKeyRange option \<Rightarrow> (nat \<times> 'v) list" where
  "openCursor s query =
     (case query of
        None \<Rightarrow> records s
      | Some r \<Rightarrow> filter (\<lambda>(k, v). includes_key r k) (records s))"

text \<open>
  The choice of range that the three range queries share:
  \<^verbatim>\<open>if (finishId) range = IDBKeyRange.bound(startId, finishId, false, false);
  else range = IDBKeyRange.lowerBound(startId, false);\<close>
  An omitted \<^verbatim>\<open>finishId\<close> is \<open>None\<close>; \<^verbatim>\<open>undefined\<close> and \<^verbatim>\<open>0\<close> are the falsy values.
\<close>

definition truthy :: "int option \<Rightarrow> bool" where
  "truthy n = (case n of None \<Rightarrow> False | Some i \<Rightarrow> i \<noteq> 0)"

definition seq_range :: "int \<Rightarrow> int option \<Rightarrow> error + IDBKeyRange" where
  "seq_range startId finishId =
     (case finishId of
        None \<Rightarrow> Inr (IDBKeyRange_lowerBound startId)
      | Some f \<Rightarrow>
          if truthy (Some f) then IDBKeyRange_bound startId f
          else Inr (IDBKeyRange_lowerBound startId))"

section \<open>Callbacks\<close>

text \<open>
  Modelled from the spec: the callback types \<^verbatim>\<open>BatchedTransactionLogCallbacks<T>\<close>
  and \<^verbatim>\<open>SimpleTransactionLogCallbacks<T>\<close> of \<^verbatim>\<open>@mightylittle/transaction-log\<close>, with
  the optional hooks \<^verbatim>\<open>onopen\<close>, \<^verbatim>\<open>onclose\<close>, \<^verbatim>\<open>onclear\<close>, \<^verbatim>\<open>onappend(data)\<close>.  A hook
  either returns (\<open>None\<close>) or throws a value (\<open>Some m\<close>);
  \<^verbatim>\<open>this.callbacks.onopen?.apply(this)\<close> calls the hook when there is one, and what it
  throws leaves the method.
\<close>

record 'a TransactionLogCallbacks =
  onopen :: "(unit \<Rightarrow> string option) option"
  onclose :: "(unit \<Rightarrow> string option) option"
  onclear :: "(unit \<Rightarrow> string option) option"
  onappend :: "('a \<Rightarrow> string option) option"

definition no_callbacks :: "'a TransactionLogCallbacks" where
  "no_callbacks = \<lparr>onopen = None, onclose = None, onclear = None, onappend = None\<rparr>"

definition call_hook :: "('x \<Rightarrow> string option) option \<Rightarrow> 'x \<Rightarrow> error + unit" where
  "call_hook h x =
     (case h of
        None \<Rightarrow> Inr ()
      | Some f \<Rightarrow> (case f x of None \<Rightarrow> Inr () | Some m \<Rightarrow> Inl (Thrown m)))"

section \<open>IDBBatchedTransactionLog\<close>

text \<open>
  The database of the batched log: the object stores \<^verbatim>\<open>"commit"\<close> and \<^verbatim>\<open>"txn"\<close>.
  The durable world maps a database name to its database; a name that maps to
  \<open>None\<close> has no database.
\<close>

record 'a BatchedTransactionLogDB =
  commit_store :: "Commit ObjectStore"
  txn_store :: "'a Transaction ObjectStore"

type_synonym 'a batched_world = "string \<Rightarrow> 'a BatchedTransactionLogDB option"

text \<open>
  \<^verbatim>\<open>openDB(name, 1, {upgrade})\<close>: a database that does not exist is created at
  version 1 and \<^verbatim>\<open>upgrade\<close> creates both stores; one that exists was created by this
  call, is at version 1 and has both stores, so nothing is upgraded.
\<close>

definition batched_upgrade :: "'a BatchedTransactionLogDB" where
  "batched_upgrade = \<lparr>commit_store = createObjectStore, txn_store = createObjectStore\<rparr>"

definition batched_openDB :: "'a batched_world \<Rightarrow> string \<Rightarrow> 'a batched_world" where
  "batched_openDB w name =
     (case w name of None \<Rightarrow> w(name \<mapsto> batched_upgrade) | Some d \<Rightarrow> w)"

definition batched_deleteDB :: "'a batched_world \<Rightarrow> string \<Rightarrow> 'a batched_world" where
  "batched_deleteDB w name = w(name := None)"

text \<open>
  The instance: \<open>db\<close> is \<^verbatim>\<open>null\<close> (\<open>None\<close>) or the connection, which is to the
  database of the name it holds.
\<close>

record 'a IDBBatchedTransactionLog =
  dbName :: string
  callbacks :: "'a TransactionLogCallbacks"
  buffer :: "'a Transaction list"
  db :: "string option"

definition batched_new ::
  "string \<Rightarrow> 'a TransactionLogCallbacks option \<Rightarrow> error + 'a IDBBatchedTransactionLog" where
  "batched_new name cbs =
     (if name = [] then Inl DB_NAME_MUST_BE_SET
      else Inr \<lparr>dbName = name,
                callbacks = (case cbs of None \<Rightarrow> no_callbacks | Some c \<Rightarrow> c),
                buffer = [], db = None\<rparr>)"

definition batched_isOpen :: "'a IDBBatchedTransactionLog \<Rightarrow> bool" where
  "batched_isOpen this = (db this \<noteq> None)"

text \<open>
  The methods return their result, the instance and the world as they are when the
  method returns or throws: what a method assigned before it threw stays assigned.
\<close>

definition batched_open ::
  "'a IDBBatchedTransactionLog \<Rightarrow> 'a batched_world \<Rightarrow>
   (error + unit) \<times> 'a IDBBatchedTransactionLog \<times> 'a batched_world" where
  "batched_open this w =
     (case db this of
        Some c \<Rightarrow> (Inl LOG_ALREADY_OPEN, this, w)
      | None \<Rightarrow>
          (call_hook (onopen (callbacks this)) (),
           this\<lparr>db := Some (dbName this)\<rparr>,
           batched_openDB w (dbName this)))"

definition batched_close ::
  "'a IDBBatchedTransactionLog \<Rightarrow> 'a batched_world \<Rightarrow>
   (error + unit) \<times> 'a IDBBatchedTransactionLog \<times> 'a batched_world" where
  "batched_close this w =
     (case db this of
        None \<Rightarrow> (Inl LOG_ALREADY_CLOSED, this, w)
      | Some c \<Rightarrow> (call_hook (onclose (callbacks this)) (), this\<lparr>db := None\<rparr>, w))"

definition batched_clear ::
  "'a IDBBatchedTransactionLog \<Rightarrow> 'a batched_world \<Rightarrow>
   (error + unit) \<times> 'a IDBBatchedTransactionLog \<times> 'a batched_world" where
  "batched_clear this w =
     (case db this of
        Some c \<Rightarrow> (Inl LOG_OPEN_CANNOT_CLEAR, this, w)
      | None \<Rightarrow>
          (call_hook (onclear (callbacks this)) (), this, batched_deleteDB w (dbName this)))"

text \<open>
  A connection reads the database of its name.  A connection to a name without a
  database does not arise (\<^verbatim>\<open>deleteDB\<close> waits for the connections to close); the
  store's \<^verbatim>\<open>InvalidStateError\<close> stands for it.
\<close>

definition connected ::
  "(string \<Rightarrow> 'd option) \<Rightarrow> string option \<Rightarrow> error + 'd" where
  "connected w c =
     (case c of
        None \<Rightarrow> Inl LOG_CLOSED
      | Some name \<Rightarrow>
          (case w name of None \<Rightarrow> Inl (DOMException InvalidStateError) | Some d \<Rightarrow> Inr d))"

definition batched_countCommits ::
  "'a IDBBatchedTransactionLog \<Rightarrow> 'a batched_world \<Rightarrow> error + nat" where
  "batched_countCommits this w =
     (case connected w (db this) of
        Inl e \<Rightarrow> Inl e
      | Inr d \<Rightarrow> Inr (store_count (commit_store d)))"

definition batched_countTransactions ::
  "'a IDBBatchedTransactionLog \<Rightarrow> 'a batched_world \<Rightarrow> error + nat" where
  "batched_countTransactions this w =
     (case connected w (db this) of
        Inl e \<Rightarrow> Inl e
      | Inr d \<Rightarrow> Inr (store_count (txn_store d)))"

definition batched_append ::
  "'a IDBBatchedTransactionLog \<Rightarrow> timestamp \<Rightarrow> 'a \<Rightarrow>
   (error + unit) \<times> 'a IDBBatchedTransactionLog" where
  "batched_append this now d =
     (case db this of
        None \<Rightarrow> (Inl LOG_CLOSED, this)
      | Some c \<Rightarrow>
          (call_hook (onappend (callbacks this)) d,
           this\<lparr>buffer := buffer this @ [\<lparr>t_id = None, t_time = now, t_data = d\<rparr>]\<rparr>))"

subsection \<open>commit\<close>

text \<open>
  The store can fail while \<^verbatim>\<open>commit\<close> writes; where it fails is an input.
  \<open>AddFault i\<close>: the request \<^verbatim>\<open>txnStore.add\<close> of the buffer's entry \<open>i\<close> (from 0)
  fails, if the buffer has one.  \<open>CommitAddFault\<close>: the request
  \<^verbatim>\<open>commitStore.add(commit)\<close> fails.  \<open>DoneFault\<close>: every request succeeds and the
  store aborts the transaction when it commits it (the quota is exceeded, the disk
  fails), so \<^verbatim>\<open>tx.done\<close> rejects.

  A request that fails, by an exception of \<^verbatim>\<open>add\<close> or by its error event, reaches
  the \<^verbatim>\<open>catch\<close> while the transaction is still active.  A transaction that the store
  aborts on committing has finished when \<^verbatim>\<open>tx.done\<close> rejects.
\<close>

datatype fault = NoFault | AddFault nat | CommitAddFault | DoneFault

text \<open>
  A \<^verbatim>\<open>readwrite\<close> transaction: the database as it was when the transaction started,
  the database as the requests made so far leave it, and the transaction's state.
  A transaction that is not \<open>Active\<close> has finished.  What is durable afterwards is
  the working copy of a committed transaction and the snapshot of any other.
\<close>

datatype tx_state = Active | Committed | Aborted

record 'd IDBPTransaction =
  snapshot :: 'd
  working :: 'd
  tx_state :: tx_state

definition transaction :: "'d \<Rightarrow> 'd IDBPTransaction" where
  "transaction d = \<lparr>snapshot = d, working = d, tx_state = Active\<rparr>"

definition durable :: "'d IDBPTransaction \<Rightarrow> 'd" where
  "durable tx = (if tx_state tx = Committed then working tx else snapshot tx)"

text \<open>
  \<^verbatim>\<open>tx.abort()\<close> rolls an active transaction back, key generators included, and
  throws an \<^verbatim>\<open>InvalidStateError\<close> on a transaction that has finished (the standard's
  \<^emph>\<open>if the transaction's state is committing or finished, throw\<close>).
\<close>

definition tx_abort :: "'d IDBPTransaction \<Rightarrow> error + 'd IDBPTransaction" where
  "tx_abort tx =
     (if tx_state tx = Active then Inr (tx\<lparr>tx_state := Aborted\<rparr>)
      else Inl (DOMException InvalidStateError))"

text \<open>
  \<^verbatim>\<open>Promise.all(this.buffer.map((transaction) => txnStore.add(transaction)))\<close>: the
  entries are added in the buffer's order; the result is the keys in that order.
\<close>

fun add_all ::
  "'a Transaction ObjectStore \<Rightarrow> 'a Transaction list \<Rightarrow> nat list \<times> 'a Transaction ObjectStore" where
  "add_all s [] = ([], s)"
| "add_all s (t # ts) =
     (let (k, s') = store_add (\<lambda>k v. v\<lparr>t_id := Some k\<rparr>) s t;
          (ks, s'') = add_all s' ts
      in (k # ks, s''))"

text \<open>
  The \<^verbatim>\<open>try\<close> block, from the first \<^verbatim>\<open>add\<close> to \<^verbatim>\<open>await tx.done\<close>.  The result
  says whether the block threw, what \<^verbatim>\<open>commitId\<close> holds, and the transaction.
  When the entry \<open>i\<close> fails, the entries before it have been added.
\<close>

definition commit_try ::
  "fault \<Rightarrow> timestamp \<Rightarrow> 'a Transaction list \<Rightarrow>
   'a BatchedTransactionLogDB IDBPTransaction \<Rightarrow>
   bool \<times> nat option \<times> 'a BatchedTransactionLogDB IDBPTransaction" where
  "commit_try fault now buf tx =
     (let n = (case fault of AddFault i \<Rightarrow> min i (length buf) | _ \<Rightarrow> length buf);
          (transactionIds, txn') = add_all (txn_store (working tx)) (take n buf);
          tx1 = tx\<lparr>working := (working tx)\<lparr>txn_store := txn'\<rparr>\<rparr>
      in if n < length buf \<or> fault = CommitAddFault then (True, None, tx1)
         else
           let (commitId, commit') =
                 store_add (\<lambda>k c. c\<lparr>c_id := Some k\<rparr>) (commit_store (working tx1))
                   \<lparr>c_id = None, c_time = now, c_transactions = transactionIds\<rparr>;
               tx2 = tx1\<lparr>working := (working tx1)\<lparr>commit_store := commit'\<rparr>\<rparr>
           in if fault = DoneFault then (True, Some commitId, tx2\<lparr>tx_state := Aborted\<rparr>)
              else (False, Some commitId, tx2\<lparr>tx_state := Committed\<rparr>))"

text \<open>\<^verbatim>\<open>!commitId\<close>: \<^verbatim>\<open>undefined\<close> and \<^verbatim>\<open>0\<close> are the falsy values.\<close>

definition falsy_key :: "nat option \<Rightarrow> bool" where
  "falsy_key k = (case k of None \<Rightarrow> True | Some n \<Rightarrow> n = 0)"

text \<open>
  \<^verbatim>\<open>commit()\<close>.  \<^verbatim>\<open>this.db.transaction\<close> is inside the \<^verbatim>\<open>try\<close>: were it to throw,
  \<^verbatim>\<open>tx\<close> is undefined, \<^verbatim>\<open>tx?.abort()\<close> does nothing and \<^verbatim>\<open>commitId\<close> is undefined.
  The \<^verbatim>\<open>catch\<close> logs the error and calls \<^verbatim>\<open>tx?.abort()\<close>; what \<^verbatim>\<open>abort\<close> throws
  leaves the method.
\<close>

definition batched_commit ::
  "'a IDBBatchedTransactionLog \<Rightarrow> 'a batched_world \<Rightarrow> fault \<Rightarrow> timestamp \<Rightarrow>
   (error + unit) \<times> 'a IDBBatchedTransactionLog \<times> 'a batched_world" where
  "batched_commit this w fault now =
     (case db this of
        None \<Rightarrow> (Inl LOG_CLOSED, this, w)
      | Some name \<Rightarrow>
          (case w name of
             None \<Rightarrow> (Inl FAILED_TO_COMMIT_TRANSACTIONS, this, w)
           | Some d \<Rightarrow>
               let (threw, commitId, tx) = commit_try fault now (buffer this) (transaction d)
               in (case (if threw then tx_abort tx else Inr tx) of
                     Inl e \<Rightarrow> (Inl e, this, w(name \<mapsto> durable tx))
                   | Inr tx' \<Rightarrow>
                       if falsy_key commitId
                       then (Inl FAILED_TO_COMMIT_TRANSACTIONS, this, w(name \<mapsto> durable tx'))
                       else (Inr (), this\<lparr>buffer := []\<rparr>, w(name \<mapsto> durable tx')))))"

subsection \<open>replay and the range queries\<close>

text \<open>
  The callback is a function of the data and of its caller's state; it returns whether
  it threw (\<open>Some m\<close>) and the state it leaves.  The loop stops at the first throw.
\<close>

fun replay_loop ::
  "('a \<Rightarrow> 's \<Rightarrow> string option \<times> 's) \<Rightarrow> (nat \<times> 'a Transaction) list \<Rightarrow> 's \<Rightarrow>
   (error + unit) \<times> 's" where
  "replay_loop callback [] s = (Inr (), s)"
| "replay_loop callback ((k, txn) # rest) s =
     (case callback (t_data txn) s of
        (Some m, s') \<Rightarrow> (Inl (Thrown m), s')
      | (None, s') \<Rightarrow> replay_loop callback rest s')"

definition batched_replay ::
  "'a IDBBatchedTransactionLog \<Rightarrow> 'a batched_world \<Rightarrow>
   ('a \<Rightarrow> 's \<Rightarrow> string option \<times> 's) \<Rightarrow> 's \<Rightarrow> (error + unit) \<times> 's" where
  "batched_replay this w callback s =
     (case connected w (db this) of
        Inl e \<Rightarrow> (Inl e, s)
      | Inr d \<Rightarrow> replay_loop callback (openCursor (txn_store d) None) s)"

text \<open>
  \<^verbatim>\<open>for (const transactionId of commit.transactions)\<close>: each id is looked up in
  \<^verbatim>\<open>"txn"\<close>; the first that is not there throws.
\<close>

fun resolve_transactions ::
  "'a Transaction ObjectStore \<Rightarrow> nat list \<Rightarrow> error + 'a Transaction list" where
  "resolve_transactions s [] = Inr []"
| "resolve_transactions s (transactionId # ids) =
     (case store_get s transactionId of
        None \<Rightarrow> Inl TRANSACTION_NOT_FOUND
      | Some t \<Rightarrow>
          (case resolve_transactions s ids of
             Inl e \<Rightarrow> Inl e
           | Inr ts \<Rightarrow> Inr (t # ts)))"

fun commit_infos ::
  "'a Transaction ObjectStore \<Rightarrow> (nat \<times> Commit) list \<Rightarrow> error + 'a CommitInfo list" where
  "commit_infos s [] = Inr []"
| "commit_infos s ((commitId, commit) # commits) =
     (case resolve_transactions s (c_transactions commit) of
        Inl e \<Rightarrow> Inl e
      | Inr ts \<Rightarrow>
          (case commit_infos s commits of
             Inl e \<Rightarrow> Inl e
           | Inr infos \<Rightarrow>
               Inr (\<lparr>ci_id = commitId, ci_time = c_time commit, ci_transactions = ts\<rparr> # infos)))"

definition batched_getSeqRangeCommits ::
  "'a IDBBatchedTransactionLog \<Rightarrow> 'a batched_world \<Rightarrow> int \<Rightarrow> int option \<Rightarrow>
   error + 'a CommitInfo list" where
  "batched_getSeqRangeCommits this w startId finishId =
     (case db this of
        None \<Rightarrow> Inl LOG_CLOSED
      | Some c \<Rightarrow>
          if startId < 1 then Inl INVALID_SEQUENCE_ID
          else
            (case seq_range startId finishId of
               Inl e \<Rightarrow> Inl e
             | Inr r \<Rightarrow>
                 (case connected w (db this) of
                    Inl e \<Rightarrow> Inl e
                  | Inr d \<Rightarrow> commit_infos (txn_store d) (openCursor (commit_store d) (Some r)))))"

definition batched_getSeqRangeTransactions ::
  "'a IDBBatchedTransactionLog \<Rightarrow> 'a batched_world \<Rightarrow> int \<Rightarrow> int option \<Rightarrow>
   error + 'a Transaction list" where
  "batched_getSeqRangeTransactions this w startId finishId =
     (case db this of
        None \<Rightarrow> Inl LOG_CLOSED
      | Some c \<Rightarrow>
          (case seq_range startId finishId of
             Inl e \<Rightarrow> Inl e
           | Inr r \<Rightarrow>
               (case connected w (db this) of
                  Inl e \<Rightarrow> Inl e
                | Inr d \<Rightarrow> Inr (map snd (openCursor (txn_store d) (Some r))))))"

section \<open>IDBSimpleTransactionLog\<close>

text \<open>The database of the simple log: the object store \<^verbatim>\<open>"simpletxn"\<close>.\<close>

record 'a SimpleTransactionLogDB =
  simpletxn_store :: "'a Transaction ObjectStore"

type_synonym 'a simple_world = "string \<Rightarrow> 'a SimpleTransactionLogDB option"

definition simple_upgrade :: "'a SimpleTransactionLogDB" where
  "simple_upgrade = \<lparr>simpletxn_store = createObjectStore\<rparr>"

definition simple_openDB :: "'a simple_world \<Rightarrow> string \<Rightarrow> 'a simple_world" where
  "simple_openDB w name =
     (case w name of None \<Rightarrow> w(name \<mapsto> simple_upgrade) | Some d \<Rightarrow> w)"

definition simple_deleteDB :: "'a simple_world \<Rightarrow> string \<Rightarrow> 'a simple_world" where
  "simple_deleteDB w name = w(name := None)"

record 'a IDBSimpleTransactionLog =
  s_dbName :: string
  s_callbacks :: "'a TransactionLogCallbacks"
  s_db :: "string option"

definition simple_new ::
  "string \<Rightarrow> 'a TransactionLogCallbacks option \<Rightarrow> error + 'a IDBSimpleTransactionLog" where
  "simple_new name cbs =
     (if name = [] then Inl DB_NAME_MUST_BE_SET
      else Inr \<lparr>s_dbName = name,
                s_callbacks = (case cbs of None \<Rightarrow> no_callbacks | Some c \<Rightarrow> c),
                s_db = None\<rparr>)"

definition simple_isOpen :: "'a IDBSimpleTransactionLog \<Rightarrow> bool" where
  "simple_isOpen this = (s_db this \<noteq> None)"

definition simple_open ::
  "'a IDBSimpleTransactionLog \<Rightarrow> 'a simple_world \<Rightarrow>
   (error + unit) \<times> 'a IDBSimpleTransactionLog \<times> 'a simple_world" where
  "simple_open this w =
     (case s_db this of
        Some c \<Rightarrow> (Inl LOG_ALREADY_OPEN, this, w)
      | None \<Rightarrow>
          (call_hook (onopen (s_callbacks this)) (),
           this\<lparr>s_db := Some (s_dbName this)\<rparr>,
           simple_openDB w (s_dbName this)))"

definition simple_close ::
  "'a IDBSimpleTransactionLog \<Rightarrow> 'a simple_world \<Rightarrow>
   (error + unit) \<times> 'a IDBSimpleTransactionLog \<times> 'a simple_world" where
  "simple_close this w =
     (case s_db this of
        None \<Rightarrow> (Inl LOG_ALREADY_CLOSED, this, w)
      | Some c \<Rightarrow> (call_hook (onclose (s_callbacks this)) (), this\<lparr>s_db := None\<rparr>, w))"

definition simple_clear ::
  "'a IDBSimpleTransactionLog \<Rightarrow> 'a simple_world \<Rightarrow>
   (error + unit) \<times> 'a IDBSimpleTransactionLog \<times> 'a simple_world" where
  "simple_clear this w =
     (case s_db this of
        Some c \<Rightarrow> (Inl LOG_OPEN_CANNOT_CLEAR, this, w)
      | None \<Rightarrow>
          (call_hook (onclear (s_callbacks this)) (), this,
           simple_deleteDB w (s_dbName this)))"

definition simple_countTransactions ::
  "'a IDBSimpleTransactionLog \<Rightarrow> 'a simple_world \<Rightarrow> error + nat" where
  "simple_countTransactions this w =
     (case connected w (s_db this) of
        Inl e \<Rightarrow> Inl e
      | Inr d \<Rightarrow> Inr (store_count (simpletxn_store d)))"

text \<open>
  \<^verbatim>\<open>append(data)\<close>: one transaction, one \<^verbatim>\<open>add\<close>,
  \<^verbatim>\<open>await Promise.all([tx.store.add(txn), tx.done])\<close>.  The store either completes the
  transaction (\<open>None\<close>) or rejects with an exception (\<open>Some e\<close>), which leaves the
  method with nothing written and the hook not called.
\<close>

definition simple_append ::
  "'a IDBSimpleTransactionLog \<Rightarrow> 'a simple_world \<Rightarrow> dom_exception option \<Rightarrow> timestamp \<Rightarrow> 'a \<Rightarrow>
   (error + unit) \<times> 'a IDBSimpleTransactionLog \<times> 'a simple_world" where
  "simple_append this w rejects now d =
     (case s_db this of
        None \<Rightarrow> (Inl LOG_CLOSED, this, w)
      | Some name \<Rightarrow>
          (case w name of
             None \<Rightarrow> (Inl (DOMException InvalidStateError), this, w)
           | Some sdb \<Rightarrow>
               (case rejects of
                  Some e \<Rightarrow> (Inl (DOMException e), this, w)
                | None \<Rightarrow>
                    let (k, s') = store_add (\<lambda>k v. v\<lparr>t_id := Some k\<rparr>) (simpletxn_store sdb)
                                    \<lparr>t_id = None, t_time = now, t_data = d\<rparr>
                    in (call_hook (onappend (s_callbacks this)) d, this,
                        w(name \<mapsto> sdb\<lparr>simpletxn_store := s'\<rparr>)))))"

definition simple_replay ::
  "'a IDBSimpleTransactionLog \<Rightarrow> 'a simple_world \<Rightarrow>
   ('a \<Rightarrow> 's \<Rightarrow> string option \<times> 's) \<Rightarrow> 's \<Rightarrow> (error + unit) \<times> 's" where
  "simple_replay this w callback s =
     (case connected w (s_db this) of
        Inl e \<Rightarrow> (Inl e, s)
      | Inr d \<Rightarrow> replay_loop callback (openCursor (simpletxn_store d) None) s)"

definition simple_getSeqRangeTransactions ::
  "'a IDBSimpleTransactionLog \<Rightarrow> 'a simple_world \<Rightarrow> int \<Rightarrow> int option \<Rightarrow>
   error + 'a Transaction list" where
  "simple_getSeqRangeTransactions this w startId finishId =
     (case s_db this of
        None \<Rightarrow> Inl LOG_CLOSED
      | Some c \<Rightarrow>
          (case seq_range startId finishId of
             Inl e \<Rightarrow> Inl e
           | Inr r \<Rightarrow>
               (case connected w (s_db this) of
                  Inl e \<Rightarrow> Inl e
                | Inr d \<Rightarrow> Inr (map snd (openCursor (simpletxn_store d) (Some r))))))"

section \<open>Well-formed stores\<close>

text \<open>
  What \<^verbatim>\<open>createObjectStore\<close> establishes and \<^verbatim>\<open>add\<close> keeps: the keys ascend strictly,
  none is 0 or beyond the generator, and each stored value carries its key as its id.
\<close>

definition store_ok :: "('v \<Rightarrow> nat option) \<Rightarrow> 'v ObjectStore \<Rightarrow> bool" where
  "store_ok key_of s =
     (sorted_wrt (<) (map fst (records s)) \<and>
      list_all (\<lambda>(k, v). 0 < k \<and> k \<le> lastKey s \<and> key_of v = Some k) (records s))"

definition batched_db_ok :: "'a BatchedTransactionLogDB \<Rightarrow> bool" where
  "batched_db_ok d = (store_ok c_id (commit_store d) \<and> store_ok t_id (txn_store d))"

definition simple_db_ok :: "'a SimpleTransactionLogDB \<Rightarrow> bool" where
  "simple_db_ok d = store_ok t_id (simpletxn_store d)"

text \<open>The records that \<open>add_all\<close> writes for a buffer, after the key \<open>k\<close>.\<close>

fun stored_as :: "nat \<Rightarrow> 'a Transaction list \<Rightarrow> (nat \<times> 'a Transaction) list" where
  "stored_as k [] = []"
| "stored_as k (t # ts) = (Suc k, t\<lparr>t_id := Some (Suc k)\<rparr>) # stored_as (Suc k) ts"

text \<open>
  The database that a commit of the buffer \<open>buf\<close> at the clock reading \<open>now\<close> leaves
  when nothing fails: the buffer's entries after the transactions there were, and one
  commit that lists their keys after the commits there were.
\<close>

definition committed_db ::
  "timestamp \<Rightarrow> 'a Transaction list \<Rightarrow> 'a BatchedTransactionLogDB \<Rightarrow> 'a BatchedTransactionLogDB" where
  "committed_db now buf d =
     \<lparr>commit_store =
        \<lparr>records = records (commit_store d) @
                     [(Suc (lastKey (commit_store d)),
                       \<lparr>c_id = Some (Suc (lastKey (commit_store d))), c_time = now,
                        c_transactions = map fst (stored_as (lastKey (txn_store d)) buf)\<rparr>)],
         lastKey = Suc (lastKey (commit_store d))\<rparr>,
      txn_store =
        \<lparr>records = records (txn_store d) @ stored_as (lastKey (txn_store d)) buf,
         lastKey = lastKey (txn_store d) + length buf\<rparr>\<rparr>"

section \<open>Observing a replay, and runs of operations\<close>

text \<open>
  A callback that, besides what \<open>callback\<close> does, records every invocation: the data
  it was called with and whether it threw.  The list it leaves is the sequence of
  invocations that took place.
\<close>

definition traced ::
  "('a \<Rightarrow> 's \<Rightarrow> string option \<times> 's) \<Rightarrow>
   'a \<Rightarrow> ('a \<times> string option) list \<times> 's \<Rightarrow> string option \<times> ('a \<times> string option) list \<times> 's" where
  "traced callback d = (\<lambda>(tr, s). case callback d s of (r, s') \<Rightarrow> (r, tr @ [(d, r)], s'))"

text \<open>
  The spec's words for \<^verbatim>\<open>replay\<close>: the invocations \<open>vs\<close> are those of a scan over
  \<open>datas\<close> that calls the callback once per entry, in order, stops at the first
  invocation that throws and fails with what it threw; \<open>r\<close> is the result.
\<close>

definition scan_of :: "error + unit \<Rightarrow> ('a \<times> string option) list \<Rightarrow> 'a list \<Rightarrow> bool" where
  "scan_of r vs datas =
     (prefix (map fst vs) datas \<and>
      (case r of
         Inr u \<Rightarrow> map fst vs = datas \<and> list_all (\<lambda>(d, x). x = None) vs
       | Inl e \<Rightarrow>
           vs \<noteq> [] \<and> list_all (\<lambda>(d, x). x = None) (butlast vs) \<and>
           (case snd (last vs) of None \<Rightarrow> False | Some m \<Rightarrow> e = Thrown m)))"

text \<open>
  Whether a fault occurs in a commit of a buffer of \<open>n\<close> entries: the request of
  entry \<open>i\<close> is made only when the buffer has that entry.
\<close>

definition fault_hits :: "fault \<Rightarrow> nat \<Rightarrow> bool" where
  "fault_hits f n =
     (case f of NoFault \<Rightarrow> False | AddFault i \<Rightarrow> i < n | CommitAddFault \<Rightarrow> True | DoneFault \<Rightarrow> True)"

text \<open>
  A run of the batched log: appends and commits, each with its clock reading, and
  each commit with what the store does to it.  The results are dropped, as by a
  caller that catches every exception; the instance and the world are threaded
  through.
\<close>

datatype 'a batched_op = Append timestamp 'a | CommitOp fault timestamp

fun batched_run ::
  "'a batched_op list \<Rightarrow> 'a IDBBatchedTransactionLog \<Rightarrow> 'a batched_world \<Rightarrow>
   'a IDBBatchedTransactionLog \<times> 'a batched_world" where
  "batched_run [] this w = (this, w)"
| "batched_run (Append now d # ops) this w =
     (case batched_append this now d of (r, this') \<Rightarrow> batched_run ops this' w)"
| "batched_run (CommitOp fault now # ops) this w =
     (case batched_commit this w fault now of (r, this', w') \<Rightarrow> batched_run ops this' w')"

text \<open>
  The spec's words, \<^emph>\<open>the append order across all committed calls\<close>: the data
  appended so far and not yet committed is pending; a commit in which no fault occurs
  moves the pending data, in order, to the committed sequence, and one in which a
  fault occurs leaves it pending.
\<close>

fun committed_appends :: "'a list \<Rightarrow> 'a batched_op list \<Rightarrow> 'a list" where
  "committed_appends pending [] = []"
| "committed_appends pending (Append now d # ops) = committed_appends (pending @ [d]) ops"
| "committed_appends pending (CommitOp fault now # ops) =
     (if fault_hits fault (length pending) then committed_appends pending ops
      else pending @ committed_appends [] ops)"

text \<open>
  A run of the simple log: appends, each with what the store does to it and its clock
  reading.  The appends that the store completes are the stored ones.
\<close>

fun simple_run ::
  "(dom_exception option \<times> timestamp \<times> 'a) list \<Rightarrow>
   'a IDBSimpleTransactionLog \<Rightarrow> 'a simple_world \<Rightarrow>
   'a IDBSimpleTransactionLog \<times> 'a simple_world" where
  "simple_run [] this w = (this, w)"
| "simple_run ((rejects, now, d) # ops) this w =
     (case simple_append this w rejects now d of (r, this', w') \<Rightarrow> simple_run ops this' w')"

definition completed_appends :: "(dom_exception option \<times> timestamp \<times> 'a) list \<Rightarrow> 'a list" where
  "completed_appends ops = map (\<lambda>(rejects, now, d). d) (filter (\<lambda>(rejects, now, d). rejects = None) ops)"

text \<open>Ids in strictly increasing order; an absent id is in no order with another.\<close>

definition ascending_ids :: "nat option list \<Rightarrow> bool" where
  "ascending_ids ids =
     sorted_wrt (\<lambda>i j. case (i, j) of (Some m, Some n) \<Rightarrow> m < n | _ \<Rightarrow> False) ids"

text \<open>
  The spec's words for a range query, \<^emph>\<open>the transactions with a \<le> id \<le> b\<close> and
  \<^emph>\<open>all ids \<ge> a\<close>, over the transactions of a store in the store's order.
\<close>

definition id_between :: "int \<Rightarrow> int option \<Rightarrow> nat option \<Rightarrow> bool" where
  "id_between a b i =
     (case i of
        None \<Rightarrow> False
      | Some n \<Rightarrow> a \<le> int n \<and> (case b of None \<Rightarrow> True | Some u \<Rightarrow> int n \<le> u))"

definition transactions_between ::
  "int \<Rightarrow> int option \<Rightarrow> 'a Transaction ObjectStore \<Rightarrow> 'a Transaction list" where
  "transactions_between a b s = filter (\<lambda>t. id_between a b (t_id t)) (map snd (records s))"

text \<open>
  The spec's words for \<^verbatim>\<open>getSeqRangeCommits\<close>: a commit with every id of its list
  resolved, when every id resolves.
\<close>

definition resolved :: "'a Transaction ObjectStore \<Rightarrow> Commit \<Rightarrow> 'a CommitInfo option" where
  "resolved s c =
     (case (c_id c, those (map (store_get s) (c_transactions c))) of
        (Some k, Some ts) \<Rightarrow> Some \<lparr>ci_id = k, ci_time = c_time c, ci_transactions = ts\<rparr>
      | _ \<Rightarrow> None)"

definition commits_between :: "int \<Rightarrow> int option \<Rightarrow> Commit ObjectStore \<Rightarrow> Commit list" where
  "commits_between a b s = filter (\<lambda>c. id_between a b (c_id c)) (map snd (records s))"

section \<open>Example states\<close>

text \<open>
  The scenario of the tests: \<^verbatim>\<open>A\<close>, \<^verbatim>\<open>B\<close>, \<^verbatim>\<open>C\<close> appended and committed, then
  \<^verbatim>\<open>D\<close> appended and committed, on a new database.
\<close>

definition demo_log :: "string IDBBatchedTransactionLog" where
  "demo_log = \<lparr>dbName = ''log'', callbacks = no_callbacks, buffer = [], db = Some ''log''\<rparr>"

definition demo_db :: "string BatchedTransactionLogDB" where
  "demo_db =
     \<lparr>commit_store =
        \<lparr>records = [(1, \<lparr>c_id = Some 1, c_time = 4, c_transactions = [1, 2, 3]\<rparr>),
                    (2, \<lparr>c_id = Some 2, c_time = 6, c_transactions = [4]\<rparr>)],
         lastKey = 2\<rparr>,
      txn_store =
        \<lparr>records = [(1, \<lparr>t_id = Some 1, t_time = 1, t_data = ''A''\<rparr>),
                    (2, \<lparr>t_id = Some 2, t_time = 2, t_data = ''B''\<rparr>),
                    (3, \<lparr>t_id = Some 3, t_time = 3, t_data = ''C''\<rparr>),
                    (4, \<lparr>t_id = Some 4, t_time = 5, t_data = ''D''\<rparr>)],
         lastKey = 4\<rparr>\<rparr>"

text \<open>
  The example database with the commit 2 listing a transaction 9 that is not stored.
\<close>

definition demo_corrupt_db :: "string BatchedTransactionLogDB" where
  "demo_corrupt_db =
     demo_db\<lparr>commit_store :=
        \<lparr>records = [(1, \<lparr>c_id = Some 1, c_time = 4, c_transactions = [1, 2, 3]\<rparr>),
                    (2, \<lparr>c_id = Some 2, c_time = 6, c_transactions = [4, 9]\<rparr>)],
         lastKey = 2\<rparr>\<rparr>"

definition demo_corrupt_world :: "string batched_world" where
  "demo_corrupt_world = Map.empty(''log'' \<mapsto> demo_corrupt_db)"

definition demo_world :: "string batched_world" where
  "demo_world = Map.empty(''log'' \<mapsto> demo_db)"

definition demo_ops :: "string batched_op list" where
  "demo_ops =
     [Append 1 ''A'', Append 2 ''B'', Append 3 ''C'', CommitOp NoFault 4,
      Append 5 ''D'', CommitOp NoFault 6]"

definition demo_closed :: "string IDBBatchedTransactionLog" where
  "demo_closed = \<lparr>dbName = ''log'', callbacks = no_callbacks, buffer = [], db = None\<rparr>"

definition demo_pending :: "string IDBBatchedTransactionLog" where
  "demo_pending = demo_log\<lparr>buffer := [\<lparr>t_id = None, t_time = 7, t_data = ''E''\<rparr>]\<rparr>"

definition demo_simple_log :: "string IDBSimpleTransactionLog" where
  "demo_simple_log = \<lparr>s_dbName = ''log'', s_callbacks = no_callbacks, s_db = Some ''log''\<rparr>"

definition demo_simple_closed :: "string IDBSimpleTransactionLog" where
  "demo_simple_closed = \<lparr>s_dbName = ''log'', s_callbacks = no_callbacks, s_db = None\<rparr>"

definition demo_simple_db :: "string SimpleTransactionLogDB" where
  "demo_simple_db = \<lparr>simpletxn_store = txn_store demo_db\<rparr>"

definition demo_simple_world :: "string simple_world" where
  "demo_simple_world = Map.empty(''log'' \<mapsto> demo_simple_db)"

section \<open>The range of a query\<close>

lemma seq_range_None: "seq_range startId None = Inr (LowerBound startId)"
  by (simp add: seq_range_def IDBKeyRange_lowerBound_def)

lemma seq_range_falsy:
  "\<not> truthy finishId \<Longrightarrow> seq_range startId finishId = Inr (LowerBound startId)"
  by (auto simp: truthy_def seq_range_def IDBKeyRange_lowerBound_def split: option.splits)

lemma seq_range_bound:
  "f \<noteq> 0 \<Longrightarrow> startId \<le> f \<Longrightarrow> seq_range startId (Some f) = Inr (Bound startId f)"
  by (simp add: truthy_def seq_range_def IDBKeyRange_bound_def)

lemma seq_range_inverted:
  "f \<noteq> 0 \<Longrightarrow> f < startId \<Longrightarrow> seq_range startId (Some f) = Inl (DOMException DataError)"
  by (simp add: truthy_def seq_range_def IDBKeyRange_bound_def)

section \<open>What a commit does\<close>

lemma add_all_eq:
  "add_all s ts =
     (map fst (stored_as (lastKey s) ts),
      \<lparr>records = records s @ stored_as (lastKey s) ts, lastKey = lastKey s + length ts\<rparr>)"
  by (induction ts arbitrary: s) (simp_all add: store_add_def Let_def)

lemma commit_try_NoFault:
  "commit_try NoFault now buf (transaction d) =
     (False, Some (Suc (lastKey (commit_store d))),
      \<lparr>snapshot = d, working = committed_db now buf d, tx_state = Committed\<rparr>)"
  by (simp add: commit_try_def transaction_def add_all_eq store_add_def committed_db_def Let_def)

lemma commit_try_DoneFault:
  "commit_try DoneFault now buf (transaction d) =
     (True, Some (Suc (lastKey (commit_store d))),
      \<lparr>snapshot = d, working = committed_db now buf d, tx_state = Aborted\<rparr>)"
  by (simp add: commit_try_def transaction_def add_all_eq store_add_def committed_db_def Let_def)

lemma commit_try_CommitAddFault:
  "\<exists>d'. commit_try CommitAddFault now buf (transaction d) =
     (True, None, \<lparr>snapshot = d, working = d', tx_state = Active\<rparr>)"
  by (simp add: commit_try_def transaction_def add_all_eq Let_def)

lemma commit_try_AddFault:
  "i < length buf \<Longrightarrow>
   \<exists>d'. commit_try (AddFault i) now buf (transaction d) =
     (True, None, \<lparr>snapshot = d, working = d', tx_state = Active\<rparr>)"
  by (simp add: commit_try_def transaction_def add_all_eq Let_def)

lemma commit_try_AddFault_late:
  "length buf \<le> i \<Longrightarrow>
   commit_try (AddFault i) now buf (transaction d) = commit_try NoFault now buf (transaction d)"
  by (simp add: commit_try_def Let_def)

lemma batched_commit_NoFault:
  "db this = Some name \<Longrightarrow> w name = Some d \<Longrightarrow>
   batched_commit this w NoFault now =
     (Inr (), this\<lparr>buffer := []\<rparr>, w(name \<mapsto> committed_db now (buffer this) d))"
  by (simp add: batched_commit_def commit_try_NoFault falsy_key_def durable_def)

lemma batched_commit_DoneFault:
  "db this = Some name \<Longrightarrow> w name = Some d \<Longrightarrow>
   batched_commit this w DoneFault now = (Inl (DOMException InvalidStateError), this, w)"
  by (simp add: batched_commit_def commit_try_DoneFault tx_abort_def durable_def map_upd_triv)

lemma batched_commit_CommitAddFault:
  "db this = Some name \<Longrightarrow> w name = Some d \<Longrightarrow>
   batched_commit this w CommitAddFault now = (Inl FAILED_TO_COMMIT_TRANSACTIONS, this, w)"
  using commit_try_CommitAddFault [of now "buffer this" d]
  by (auto simp add: batched_commit_def tx_abort_def durable_def map_upd_triv falsy_key_def)

lemma batched_commit_AddFault:
  "db this = Some name \<Longrightarrow> w name = Some d \<Longrightarrow> i < length (buffer this) \<Longrightarrow>
   batched_commit this w (AddFault i) now = (Inl FAILED_TO_COMMIT_TRANSACTIONS, this, w)"
  using commit_try_AddFault [of i "buffer this" now d]
  by (auto simp add: batched_commit_def tx_abort_def durable_def map_upd_triv falsy_key_def)

lemma batched_commit_AddFault_late:
  "length (buffer this) \<le> i \<Longrightarrow>
   batched_commit this w (AddFault i) now = batched_commit this w NoFault now"
  by (simp add: batched_commit_def commit_try_AddFault_late split: option.splits)

lemma batched_commit_closed:
  "db this = None \<Longrightarrow> batched_commit this w fault now = (Inl LOG_CLOSED, this, w)"
  by (simp add: batched_commit_def)

text \<open>
  In sum, on an open log: a commit in which a fault occurs fails and leaves the
  instance, its buffer and the world as they were; a commit in which none occurs
  succeeds, stores the buffer and empties it.
\<close>

lemma batched_commit_fault:
  assumes "db this = Some name" and "w name = Some d"
    and "fault_hits fault (length (buffer this))"
  shows "batched_commit this w fault now =
           (Inl (if fault = DoneFault then DOMException InvalidStateError
                 else FAILED_TO_COMMIT_TRANSACTIONS), this, w)"
  using assms
  by (cases fault)
     (simp_all add: fault_hits_def batched_commit_AddFault batched_commit_CommitAddFault
        batched_commit_DoneFault)

lemma batched_commit_no_fault:
  assumes "db this = Some name" and "w name = Some d"
    and "\<not> fault_hits fault (length (buffer this))"
  shows "batched_commit this w fault now =
           (Inr (), this\<lparr>buffer := []\<rparr>, w(name \<mapsto> committed_db now (buffer this) d))"
  using assms
  by (cases fault)
     (simp_all add: fault_hits_def batched_commit_AddFault_late batched_commit_NoFault)

lemmas demo_defs = demo_log_def demo_db_def demo_world_def demo_closed_def demo_pending_def
  demo_corrupt_db_def demo_corrupt_world_def
  demo_simple_log_def demo_simple_db_def demo_simple_world_def demo_simple_closed_def
  no_callbacks_def

text \<open>
  Claim C1.  A commit that fails must fail with \<^verbatim>\<open>FAILED_TO_COMMIT_TRANSACTIONS\<close>,
  write nothing and keep the buffer.  The lemmas above show that it does when a
  request fails.  When every request has succeeded and the store aborts the
  transaction as it commits it, \<^verbatim>\<open>commitId\<close> is set, the \<^verbatim>\<open>catch\<close> calls
  \<^verbatim>\<open>abort()\<close> on a transaction that has finished, and what leaves \<^verbatim>\<open>commit()\<close> is
  the \<^verbatim>\<open>InvalidStateError\<close> of that call: here on the example log with \<^verbatim>\<open>E\<close>
  in the buffer.
\<close>

theorem commit_done_fault_error:
  "batched_commit demo_pending demo_world DoneFault 8 =
     (Inl (DOMException InvalidStateError), demo_pending, demo_world)"
  by (rule batched_commit_DoneFault [of _ "''log''" _ demo_db])
     (simp_all add: demo_defs)

section \<open>Sequence ids below 1\<close>

text \<open>
  Claim C3.  \<^verbatim>\<open>getSeqRangeTransactions\<close> must fail with \<^verbatim>\<open>INVALID_SEQUENCE_ID\<close> for
  a start below 1.  Neither variant tests \<^verbatim>\<open>startId\<close>: on the example logs a start
  of 0 returns every stored transaction, where \<^verbatim>\<open>getSeqRangeCommits\<close>, which has
  the test, fails.
\<close>

theorem getSeqRangeTransactions_accepts_start_zero:
  "batched_getSeqRangeTransactions demo_log demo_world 0 None =
     Inr (map snd (records (txn_store demo_db))) \<and>
   simple_getSeqRangeTransactions demo_simple_log demo_simple_world 0 None =
     Inr (map snd (records (simpletxn_store demo_simple_db))) \<and>
   batched_getSeqRangeCommits demo_log demo_world 0 None = Inl INVALID_SEQUENCE_ID"
  by (simp add: batched_getSeqRangeTransactions_def simple_getSeqRangeTransactions_def
      batched_getSeqRangeCommits_def seq_range_None connected_def openCursor_def demo_defs)

section \<open>The lifecycle\<close>

lemma call_hook_cases: "call_hook h x = Inr () \<or> (\<exists>m. call_hook h x = Inl (Thrown m))"
  by (auto simp: call_hook_def split: option.splits)

lemma call_hook_not_log_error [simp]:
  "call_hook h x \<noteq> Inl LOG_ALREADY_OPEN"
  "call_hook h x \<noteq> Inl LOG_ALREADY_CLOSED"
  "call_hook h x \<noteq> Inl LOG_OPEN_CANNOT_CLEAR"
  "call_hook h x \<noteq> Inl LOG_CLOSED"
  using call_hook_cases [of h x] by auto

lemma connected_closed [simp]: "connected w None = Inl LOG_CLOSED"
  by (simp add: connected_def)

text \<open>
  Claim C4.  In both variants and in every state: \<^verbatim>\<open>open\<close> fails with
  \<^verbatim>\<open>LOG_ALREADY_OPEN\<close> exactly when the log is open, \<^verbatim>\<open>close\<close> with
  \<^verbatim>\<open>LOG_ALREADY_CLOSED\<close> exactly when it is closed, \<^verbatim>\<open>clear\<close> with
  \<^verbatim>\<open>LOG_OPEN_CANNOT_CLEAR\<close> exactly when it is open; and on a closed log
  \<^verbatim>\<open>append\<close>, \<^verbatim>\<open>commit\<close>, the counts, \<^verbatim>\<open>replay\<close> and the range queries fail with
  \<^verbatim>\<open>LOG_CLOSED\<close>.
\<close>

theorem lifecycle_error_contract:
  "((fst (batched_open this w) = Inl LOG_ALREADY_OPEN) = batched_isOpen this) \<and>
   ((fst (batched_close this w) = Inl LOG_ALREADY_CLOSED) = (\<not> batched_isOpen this)) \<and>
   ((fst (batched_clear this w) = Inl LOG_OPEN_CANNOT_CLEAR) = batched_isOpen this) \<and>
   (\<not> batched_isOpen this \<longrightarrow>
      fst (batched_append this now d) = Inl LOG_CLOSED \<and>
      fst (batched_commit this w fault now) = Inl LOG_CLOSED \<and>
      batched_countTransactions this w = Inl LOG_CLOSED \<and>
      batched_countCommits this w = Inl LOG_CLOSED \<and>
      fst (batched_replay this w callback s) = Inl LOG_CLOSED \<and>
      batched_getSeqRangeCommits this w startId finishId = Inl LOG_CLOSED \<and>
      batched_getSeqRangeTransactions this w startId finishId = Inl LOG_CLOSED) \<and>
   ((fst (simple_open that sw) = Inl LOG_ALREADY_OPEN) = simple_isOpen that) \<and>
   ((fst (simple_close that sw) = Inl LOG_ALREADY_CLOSED) = (\<not> simple_isOpen that)) \<and>
   ((fst (simple_clear that sw) = Inl LOG_OPEN_CANNOT_CLEAR) = simple_isOpen that) \<and>
   (\<not> simple_isOpen that \<longrightarrow>
      fst (simple_append that sw rejects now d) = Inl LOG_CLOSED \<and>
      simple_countTransactions that sw = Inl LOG_CLOSED \<and>
      fst (simple_replay that sw callback s) = Inl LOG_CLOSED \<and>
      simple_getSeqRangeTransactions that sw startId finishId = Inl LOG_CLOSED)"
proof -
  have b: "(fst (batched_open this w) = Inl LOG_ALREADY_OPEN) = batched_isOpen this"
    "(fst (batched_close this w) = Inl LOG_ALREADY_CLOSED) = (\<not> batched_isOpen this)"
    "(fst (batched_clear this w) = Inl LOG_OPEN_CANNOT_CLEAR) = batched_isOpen this"
    by (cases "db this"; simp add: batched_open_def batched_close_def batched_clear_def
        batched_isOpen_def)+
  have bd: "fst (batched_append this now d) = Inl LOG_CLOSED \<and>
      fst (batched_commit this w fault now) = Inl LOG_CLOSED \<and>
      batched_countTransactions this w = Inl LOG_CLOSED \<and>
      batched_countCommits this w = Inl LOG_CLOSED \<and>
      fst (batched_replay this w callback s) = Inl LOG_CLOSED \<and>
      batched_getSeqRangeCommits this w startId finishId = Inl LOG_CLOSED \<and>
      batched_getSeqRangeTransactions this w startId finishId = Inl LOG_CLOSED"
    if "\<not> batched_isOpen this"
    using that
    by (simp add: batched_isOpen_def batched_append_def batched_commit_def
        batched_countTransactions_def batched_countCommits_def batched_replay_def
        batched_getSeqRangeCommits_def batched_getSeqRangeTransactions_def)
  have s: "(fst (simple_open that sw) = Inl LOG_ALREADY_OPEN) = simple_isOpen that"
    "(fst (simple_close that sw) = Inl LOG_ALREADY_CLOSED) = (\<not> simple_isOpen that)"
    "(fst (simple_clear that sw) = Inl LOG_OPEN_CANNOT_CLEAR) = simple_isOpen that"
    by (cases "s_db that"; simp add: simple_open_def simple_close_def simple_clear_def
        simple_isOpen_def)+
  have sd: "fst (simple_append that sw rejects now d) = Inl LOG_CLOSED \<and>
      simple_countTransactions that sw = Inl LOG_CLOSED \<and>
      fst (simple_replay that sw callback s) = Inl LOG_CLOSED \<and>
      simple_getSeqRangeTransactions that sw startId finishId = Inl LOG_CLOSED"
    if "\<not> simple_isOpen that"
    using that
    by (simp add: simple_isOpen_def simple_append_def simple_countTransactions_def
        simple_replay_def simple_getSeqRangeTransactions_def)
  from b bd s sd show ?thesis by blast
qed

theorem lifecycle_error_contract_witness:
  "batched_isOpen demo_log \<and> \<not> batched_isOpen demo_closed \<and>
   simple_isOpen demo_simple_log \<and> \<not> simple_isOpen demo_simple_closed \<and>
   fst (batched_open demo_log demo_world) = Inl LOG_ALREADY_OPEN \<and>
   fst (batched_clear demo_log demo_world) = Inl LOG_OPEN_CANNOT_CLEAR \<and>
   fst (batched_close demo_closed demo_world) = Inl LOG_ALREADY_CLOSED \<and>
   fst (batched_append demo_closed 7 ''E'') = Inl LOG_CLOSED \<and>
   fst (batched_commit demo_closed demo_world NoFault 7) = Inl LOG_CLOSED \<and>
   batched_countTransactions demo_closed demo_world = Inl LOG_CLOSED \<and>
   batched_countCommits demo_closed demo_world = Inl LOG_CLOSED \<and>
   fst (batched_replay demo_closed demo_world (\<lambda>d s. (None, s @ [d])) []) = Inl LOG_CLOSED \<and>
   batched_getSeqRangeCommits demo_closed demo_world 1 None = Inl LOG_CLOSED \<and>
   batched_getSeqRangeTransactions demo_closed demo_world 1 None = Inl LOG_CLOSED \<and>
   fst (simple_open demo_simple_log demo_simple_world) = Inl LOG_ALREADY_OPEN \<and>
   fst (simple_clear demo_simple_log demo_simple_world) = Inl LOG_OPEN_CANNOT_CLEAR \<and>
   fst (simple_close demo_simple_closed demo_simple_world) = Inl LOG_ALREADY_CLOSED \<and>
   fst (simple_append demo_simple_closed demo_simple_world None 7 ''E'') = Inl LOG_CLOSED \<and>
   simple_countTransactions demo_simple_closed demo_simple_world = Inl LOG_CLOSED \<and>
   fst (simple_replay demo_simple_closed demo_simple_world (\<lambda>d s. (None, s @ [d])) []) =
     Inl LOG_CLOSED \<and>
   simple_getSeqRangeTransactions demo_simple_closed demo_simple_world 1 None = Inl LOG_CLOSED"
proof -
  have o: "batched_isOpen demo_log" "simple_isOpen demo_simple_log"
    by (simp_all add: batched_isOpen_def simple_isOpen_def demo_defs)
  have c: "\<not> batched_isOpen demo_closed" "\<not> simple_isOpen demo_simple_closed"
    by (simp_all add: batched_isOpen_def simple_isOpen_def demo_defs)
  show ?thesis
    using o c
      lifecycle_error_contract [of demo_log demo_world _ _ _ _ _ _ _ demo_simple_log demo_simple_world]
      lifecycle_error_contract [of demo_closed demo_world 7 "''E''" NoFault "\<lambda>d s. (None, s @ [d])" "[]" 1 None
        demo_simple_closed demo_simple_world None]
    by simp
qed

section \<open>A commit of an empty buffer\<close>

lemma connected_Some: "w name = Some d \<Longrightarrow> connected w (Some name) = Inr d"
  by (simp add: connected_def)

text \<open>
  Claim C8.  On an open batched log with an empty buffer, \<^verbatim>\<open>commit()\<close> succeeds (the
  store not failing) and writes one commit whose list of transactions is empty:
  \<^verbatim>\<open>countCommits()\<close> is one more than before and \<^verbatim>\<open>countTransactions()\<close> is what it
  was.
\<close>

theorem commit_empty_buffer:
  assumes "db this = Some name" and "w name = Some d" and "buffer this = []"
  shows "case batched_commit this w NoFault now of
           (r, this', w') \<Rightarrow>
             r = Inr () \<and>
             map_option (records \<circ> commit_store) (w' name) =
               Some (records (commit_store d) @
                     [(Suc (lastKey (commit_store d)),
                       \<lparr>c_id = Some (Suc (lastKey (commit_store d))), c_time = now,
                        c_transactions = []\<rparr>)]) \<and>
             map_option (records \<circ> txn_store) (w' name) = Some (records (txn_store d)) \<and>
             batched_countCommits this w = Inr (store_count (commit_store d)) \<and>
             batched_countCommits this' w' = Inr (Suc (store_count (commit_store d))) \<and>
             batched_countTransactions this' w' = batched_countTransactions this w"
  using assms
  by (simp add: batched_commit_NoFault [of this name w d] committed_db_def
      batched_countCommits_def batched_countTransactions_def connected_Some store_count_def)

theorem commit_empty_buffer_witness:
  "db demo_log = Some ''log'' \<and> demo_world ''log'' = Some demo_db \<and> buffer demo_log = [] \<and>
   fst (batched_commit demo_log demo_world NoFault 8) = Inr () \<and>
   batched_countCommits demo_log demo_world = Inr 2 \<and>
   batched_countTransactions demo_log demo_world = Inr 4 \<and>
   (case batched_commit demo_log demo_world NoFault 8 of
      (r, this', w') \<Rightarrow>
        batched_countCommits this' w' = Inr 3 \<and> batched_countTransactions this' w' = Inr 4 \<and>
        batched_getSeqRangeCommits this' w' 3 None =
          Inr [\<lparr>ci_id = 3, ci_time = 8, ci_transactions = []\<rparr>])"
proof -
  have h: "db demo_log = Some ''log''" "demo_world ''log'' = Some demo_db" "buffer demo_log = []"
    by (simp_all add: demo_defs)
  have c: "batched_commit demo_log demo_world NoFault 8 =
             (Inr (), demo_log\<lparr>buffer := []\<rparr>, demo_world(''log'' \<mapsto> committed_db 8 [] demo_db))"
    using batched_commit_NoFault [of demo_log "''log''" demo_world demo_db 8] h by simp
  show ?thesis
    using h commit_empty_buffer [of demo_log "''log''" demo_world demo_db 8]
    unfolding c
    by (simp add: batched_countCommits_def
        batched_countTransactions_def batched_getSeqRangeCommits_def connected_def
        store_count_def seq_range_None openCursor_def committed_db_def demo_defs)
qed

section \<open>Closing and reopening\<close>

lemma batched_openDB_exists: "w name = Some d \<Longrightarrow> batched_openDB w name = w"
  by (simp add: batched_openDB_def)

lemma batched_openDB_idem: "batched_openDB (batched_openDB w name) name = batched_openDB w name"
  by (simp add: batched_openDB_def split: option.splits)

lemma simple_openDB_idem: "simple_openDB (simple_openDB w name) name = simple_openDB w name"
  by (simp add: simple_openDB_def split: option.splits)

lemma batched_new_fresh:
  "batched_new name cbs = Inr other \<Longrightarrow> dbName other = name \<and> db other = None \<and> buffer other = []"
  by (auto simp: batched_new_def split: if_splits)

lemma simple_new_fresh:
  "simple_new name cbs = Inr other \<Longrightarrow> s_dbName other = name \<and> s_db other = None"
  by (auto simp: simple_new_def split: if_splits)

text \<open>
  Claim C9.  A closed log is opened, closed and opened again; a log newly constructed
  on the same name is opened after the close.  Both opens leave the same world, the
  one a single \<^verbatim>\<open>open\<close> leaves, and \<^verbatim>\<open>countTransactions\<close> and \<^verbatim>\<open>replay\<close> give the
  same on both logs: in the batched and in the simple variant.
\<close>

theorem open_close_reopen:
  assumes "db this = None" and "batched_new (dbName this) cbs = Inr other"
    and "s_db that = None" and "simple_new (s_dbName that) scbs = Inr sother"
  shows
    "(case batched_open this w of (r1, l1, w1) \<Rightarrow>
      case batched_close l1 w1 of (r2, l2, w2) \<Rightarrow>
      case batched_open l2 w2 of (r3, l3, w3) \<Rightarrow>
      case batched_open other w2 of (r4, l4, w4) \<Rightarrow>
        w3 = batched_openDB w (dbName this) \<and> w4 = w3 \<and>
        batched_countTransactions l3 w3 = batched_countTransactions l4 w4 \<and>
        batched_replay l3 w3 callback s = batched_replay l4 w4 callback s) \<and>
     (case simple_open that sw of (r1, l1, w1) \<Rightarrow>
      case simple_close l1 w1 of (r2, l2, w2) \<Rightarrow>
      case simple_open l2 w2 of (r3, l3, w3) \<Rightarrow>
      case simple_open sother w2 of (r4, l4, w4) \<Rightarrow>
        w3 = simple_openDB sw (s_dbName that) \<and> w4 = w3 \<and>
        simple_countTransactions l3 w3 = simple_countTransactions l4 w4 \<and>
        simple_replay l3 w3 callback s = simple_replay l4 w4 callback s)"
  using assms(1,3) batched_new_fresh [OF assms(2)] simple_new_fresh [OF assms(4)]
  by (simp add: batched_open_def batched_close_def simple_open_def simple_close_def
      batched_openDB_idem simple_openDB_idem batched_countTransactions_def
      batched_replay_def simple_countTransactions_def simple_replay_def)

theorem open_close_reopen_witness:
  "db demo_closed = None \<and> batched_new (dbName demo_closed) None = Inr demo_closed \<and>
   s_db demo_simple_closed = None \<and>
   simple_new (s_dbName demo_simple_closed) None = Inr demo_simple_closed \<and>
   (case batched_open demo_closed demo_world of (r1, l1, w1) \<Rightarrow>
    case batched_close l1 w1 of (r2, l2, w2) \<Rightarrow>
    case batched_open l2 w2 of (r3, l3, w3) \<Rightarrow>
    case batched_open demo_closed w2 of (r4, l4, w4) \<Rightarrow>
      r1 = Inr () \<and> r2 = Inr () \<and> r3 = Inr () \<and> r4 = Inr () \<and>
      batched_countTransactions l3 w3 = Inr 4 \<and>
      batched_countTransactions l4 w4 = Inr 4 \<and>
      batched_replay l3 w3 (\<lambda>d s. (None, s @ [d])) [] = (Inr (), [''A'', ''B'', ''C'', ''D'']) \<and>
      batched_replay l4 w4 (\<lambda>d s. (None, s @ [d])) [] = (Inr (), [''A'', ''B'', ''C'', ''D''])) \<and>
   (case simple_open demo_simple_closed demo_simple_world of (r1, l1, w1) \<Rightarrow>
    case simple_close l1 w1 of (r2, l2, w2) \<Rightarrow>
    case simple_open l2 w2 of (r3, l3, w3) \<Rightarrow>
    case simple_open demo_simple_closed w2 of (r4, l4, w4) \<Rightarrow>
      simple_countTransactions l3 w3 = Inr 4 \<and>
      simple_countTransactions l4 w4 = Inr 4 \<and>
      simple_replay l3 w3 (\<lambda>d s. (None, s @ [d])) [] = (Inr (), [''A'', ''B'', ''C'', ''D'']) \<and>
      simple_replay l4 w4 (\<lambda>d s. (None, s @ [d])) [] = (Inr (), [''A'', ''B'', ''C'', ''D'']))"
proof -
  have h: "db demo_closed = None" "batched_new (dbName demo_closed) None = Inr demo_closed"
    "s_db demo_simple_closed = None"
    "simple_new (s_dbName demo_simple_closed) None = Inr demo_simple_closed"
    by (simp_all add: batched_new_def simple_new_def demo_defs)
  show ?thesis
    using h open_close_reopen [OF h, of demo_world "\<lambda>d s. (None, s @ [d])" "[]" demo_simple_world]
    by (simp add: batched_open_def batched_close_def simple_open_def simple_close_def
        batched_openDB_def simple_openDB_def batched_countTransactions_def call_hook_def
        batched_replay_def simple_countTransactions_def simple_replay_def connected_def
        store_count_def openCursor_def demo_defs)
qed

section \<open>Closing with a buffer\<close>

lemma map_data_stored_as: "map (t_data \<circ> snd) (stored_as k ts) = map t_data ts"
  by (induction ts arbitrary: k) simp_all

lemma length_stored_as: "length (stored_as k ts) = length ts"
  by (induction ts arbitrary: k) simp_all

text \<open>
  Claim C2 says that \<^verbatim>\<open>close()\<close> discards the buffer, so that an entry appended
  before the close is not persisted by a later \<^verbatim>\<open>open()\<close> and \<^verbatim>\<open>commit()\<close>.  On the
  example log, \<^verbatim>\<open>E\<close> is appended, the log is closed and opened, and the commit
  stores \<^verbatim>\<open>E\<close> as transaction 5.
\<close>

theorem close_discards_buffer_counterexample:
  "case batched_append demo_log 7 ''E'' of (r0, l0) \<Rightarrow>
   case batched_close l0 demo_world of (r1, l1, w1) \<Rightarrow>
   case batched_open l1 w1 of (r2, l2, w2) \<Rightarrow>
   case batched_commit l2 w2 NoFault 8 of (r3, l3, w3) \<Rightarrow>
     r0 = Inr () \<and> r1 = Inr () \<and> r2 = Inr () \<and> r3 = Inr () \<and>
     buffer l1 = [\<lparr>t_id = None, t_time = 7, t_data = ''E''\<rparr>] \<and>
     batched_countTransactions l3 w3 = Inr 5 \<and>
     batched_getSeqRangeTransactions l3 w3 5 None =
       Inr [\<lparr>t_id = Some 5, t_time = 7, t_data = ''E''\<rparr>]"
proof -
  have c: "batched_commit demo_pending demo_world NoFault 8 =
             (Inr (), demo_pending\<lparr>buffer := []\<rparr>,
              demo_world(''log'' \<mapsto> committed_db 8 (buffer demo_pending) demo_db))"
    by (rule batched_commit_NoFault) (simp_all add: demo_defs)
  have a: "batched_append demo_log 7 ''E'' = (Inr (), demo_pending)"
    by (simp add: batched_append_def call_hook_def demo_defs)
  have b: "batched_close demo_pending demo_world = (Inr (), demo_pending\<lparr>db := None\<rparr>, demo_world)"
    by (simp add: batched_close_def call_hook_def demo_defs)
  have o: "batched_open (demo_pending\<lparr>db := None\<rparr>) demo_world = (Inr (), demo_pending, demo_world)"
    by (simp add: batched_open_def batched_openDB_def call_hook_def demo_defs)
  show ?thesis
    unfolding a b o c prod.case
    by (simp add: batched_countTransactions_def batched_getSeqRangeTransactions_def
        connected_def store_count_def seq_range_None openCursor_def committed_db_def demo_defs)
qed

lemma replay_loop_recorder:
  "replay_loop (\<lambda>x s. (None, s @ [x])) recs tr = (Inr (), tr @ map (t_data \<circ> snd) recs)"
  by (induction recs arbitrary: tr) auto

text \<open>
  Claim C2, amended.  \<^verbatim>\<open>close()\<close> on an open batched log commits nothing (the world
  is as it was) and leaves the buffer on the instance as it is; after \<^verbatim>\<open>open()\<close>, a
  \<^verbatim>\<open>commit()\<close> that succeeds stores the entries appended before the close, in order,
  after the transactions there were.
\<close>

theorem close_keeps_buffer:
  assumes "db this = Some (dbName this)" and "w (dbName this) = Some d"
  shows
    "case batched_close this w of (r1, l1, w1) \<Rightarrow>
       w1 = w \<and> buffer l1 = buffer this \<and> db l1 = None \<and>
       (case batched_open l1 w1 of (r2, l2, w2) \<Rightarrow>
          w2 = w \<and> buffer l2 = buffer this \<and>
          (case batched_commit l2 w2 NoFault now of (r3, l3, w3) \<Rightarrow>
             r3 = Inr () \<and> buffer l3 = [] \<and>
             w3 = w(dbName this \<mapsto> committed_db now (buffer this) d) \<and>
             batched_countTransactions l3 w3 =
               Inr (store_count (txn_store d) + length (buffer this)) \<and>
             batched_replay l3 w3 (\<lambda>x s. (None, s @ [x])) [] =
               (Inr (), map (t_data \<circ> snd) (records (txn_store d)) @ map t_data (buffer this))))"
proof -
  let ?l1 = "this\<lparr>db := None\<rparr>"
  let ?l2 = "this\<lparr>db := Some (dbName this)\<rparr>"
  have c: "batched_close this w = (call_hook (onclose (callbacks this)) (), ?l1, w)"
    using assms(1) by (simp add: batched_close_def)
  have o: "batched_open ?l1 w = (call_hook (onopen (callbacks this)) (), ?l2, w)"
    using assms(2) by (simp add: batched_open_def batched_openDB_exists)
  have m: "batched_commit ?l2 w NoFault now =
             (Inr (), ?l2\<lparr>buffer := []\<rparr>, w(dbName this \<mapsto> committed_db now (buffer ?l2) d))"
    by (rule batched_commit_NoFault) (simp_all add: assms)
  show ?thesis
    unfolding c o m prod.case
    by (simp add: batched_countTransactions_def batched_replay_def connected_def
        store_count_def openCursor_def committed_db_def replay_loop_recorder
        length_stored_as map_data_stored_as)
qed

theorem close_keeps_buffer_witness:
  "db demo_pending = Some (dbName demo_pending) \<and> demo_world (dbName demo_pending) = Some demo_db \<and>
   (case batched_close demo_pending demo_world of (r1, l1, w1) \<Rightarrow>
      r1 = Inr () \<and> w1 = demo_world \<and>
      buffer l1 = [\<lparr>t_id = None, t_time = 7, t_data = ''E''\<rparr>] \<and>
      (case batched_open l1 w1 of (r2, l2, w2) \<Rightarrow>
         r2 = Inr () \<and>
         (case batched_commit l2 w2 NoFault 8 of (r3, l3, w3) \<Rightarrow>
            r3 = Inr () \<and> buffer l3 = [] \<and>
            batched_countTransactions l3 w3 = Inr 5 \<and>
            batched_replay l3 w3 (\<lambda>x s. (None, s @ [x])) [] =
              (Inr (), [''A'', ''B'', ''C'', ''D'', ''E'']))))"
proof -
  have h: "db demo_pending = Some (dbName demo_pending)"
    "demo_world (dbName demo_pending) = Some demo_db"
    by (simp_all add: demo_defs)
  have c: "batched_close demo_pending demo_world = (Inr (), demo_pending\<lparr>db := None\<rparr>, demo_world)"
    by (simp add: batched_close_def call_hook_def demo_defs)
  have o: "batched_open (demo_pending\<lparr>db := None\<rparr>) demo_world = (Inr (), demo_pending, demo_world)"
    by (simp add: batched_open_def batched_openDB_def call_hook_def demo_defs)
  show ?thesis
    using h close_keeps_buffer [of demo_pending demo_world demo_db 8]
    unfolding c o prod.case
    by (auto simp add: store_count_def demo_defs split: prod.splits)
qed

section \<open>The stores stay well-formed\<close>

lemma store_ok_create: "store_ok key_of createObjectStore"
  by (simp add: store_ok_def createObjectStore_def)

lemma sorted_keys_snoc:
  "sorted_wrt (<) (map fst recs) \<Longrightarrow> list_all (\<lambda>(k, v). k \<le> n) recs \<Longrightarrow>
   sorted_wrt (<) (map fst (recs @ [(Suc n, x)]))"
  by (auto simp: sorted_wrt_append list_all_iff)

lemma store_ok_add:
  assumes "store_ok key_of s" and "\<And>k. key_of (inject k v) = Some k"
  shows "store_ok key_of (snd (store_add inject s v))"
proof -
  have "list_all (\<lambda>(k, v). k \<le> lastKey s) (records s)"
    using assms(1) by (auto simp: store_ok_def list_all_iff)
  with assms show ?thesis
    by (auto simp: store_ok_def store_add_def Let_def sorted_keys_snoc list_all_iff
        simp del: map_append)
qed

lemma store_ok_stored_as:
  "store_ok t_id s \<Longrightarrow>
   store_ok t_id \<lparr>records = records s @ stored_as (lastKey s) buf, lastKey = lastKey s + length buf\<rparr>"
proof (induction buf arbitrary: s)
  case Nil
  then show ?case by (simp add: store_ok_def)
next
  case (Cons t buf)
  let ?s1 = "snd (store_add (\<lambda>k v. v\<lparr>t_id := Some k\<rparr>) s t)"
  have "store_ok t_id ?s1"
    using Cons.prems by (rule store_ok_add) simp
  from Cons.IH [OF this] show ?case
    by (simp add: store_add_def Let_def)
qed

lemma batched_db_ok_upgrade: "batched_db_ok batched_upgrade"
  by (simp add: batched_db_ok_def batched_upgrade_def store_ok_create)

lemma simple_db_ok_upgrade: "simple_db_ok simple_upgrade"
  by (simp add: simple_db_ok_def simple_upgrade_def store_ok_create)

lemma batched_db_ok_committed:
  assumes "batched_db_ok d"
  shows "batched_db_ok (committed_db now buf d)"
proof -
  have "store_ok c_id (snd (store_add (\<lambda>k c. c\<lparr>c_id := Some k\<rparr>) (commit_store d)
          \<lparr>c_id = None, c_time = now,
           c_transactions = map fst (stored_as (lastKey (txn_store d)) buf)\<rparr>))"
    using assms by (intro store_ok_add) (simp_all add: batched_db_ok_def)
  moreover have "store_ok t_id \<lparr>records = records (txn_store d) @ stored_as (lastKey (txn_store d)) buf,
      lastKey = lastKey (txn_store d) + length buf\<rparr>"
    using assms by (intro store_ok_stored_as) (simp add: batched_db_ok_def)
  ultimately show ?thesis
    by (simp add: batched_db_ok_def committed_db_def store_add_def Let_def)
qed

lemma store_ok_ascending:
  assumes "store_ok key_of s"
  shows "ascending_ids (map (key_of \<circ> snd) (records s))"
proof -
  have k: "map (key_of \<circ> snd) (records s) = map Some (map fst (records s))"
    using assms by (auto simp: store_ok_def list_all_iff)
  have "sorted_wrt (<) (map fst (records s))"
    using assms by (simp add: store_ok_def)
  then show ?thesis
    unfolding ascending_ids_def k by (simp add: sorted_wrt_map)
qed

lemma ascending_ids_filter:
  "ascending_ids (map f xs) \<Longrightarrow> ascending_ids (map f (filter P xs))"
  unfolding ascending_ids_def sorted_wrt_map by (rule sorted_wrt_filter)

section \<open>Range queries over the transactions\<close>

lemma includes_key_between:
  "includes_key (LowerBound a) k = id_between a None (Some k)"
  "includes_key (Bound a b) k = id_between a (Some b) (Some k)"
  by (simp_all add: id_between_def)

lemma cursor_by_id:
  assumes "list_all (\<lambda>(k, v). key_of v = Some k) recs"
    and "\<And>k. includes_key r k = id_between a b (Some k)"
  shows "map snd (filter (\<lambda>(k, v). includes_key r k) recs) =
         filter (\<lambda>v. id_between a b (key_of v)) (map snd recs)"
  using assms(1)
  by (induction recs) (auto simp: assms(2))

lemma store_ok_ids: "store_ok key_of s \<Longrightarrow> list_all (\<lambda>(k, v). key_of v = Some k) (records s)"
  by (auto simp: store_ok_def list_all_iff)

lemma openCursor_lower:
  "store_ok t_id s \<Longrightarrow>
   map snd (openCursor s (Some (LowerBound a))) = transactions_between a None s"
  unfolding openCursor_def transactions_between_def option.case
  by (rule cursor_by_id [OF store_ok_ids]) (simp_all add: id_between_def)

lemma openCursor_bound:
  "store_ok t_id s \<Longrightarrow>
   map snd (openCursor s (Some (Bound a b))) = transactions_between a (Some b) s"
  unfolding openCursor_def transactions_between_def option.case
  by (rule cursor_by_id [OF store_ok_ids]) (simp_all add: id_between_def)

lemma transactions_between_ascending:
  "store_ok t_id s \<Longrightarrow> ascending_ids (map t_id (transactions_between a b s))"
  using store_ok_ascending [of t_id s]
  by (simp add: transactions_between_def ascending_ids_def sorted_wrt_map sorted_wrt_filter)

lemma batched_range_None:
  "db this = Some name \<Longrightarrow> w name = Some d \<Longrightarrow> batched_db_ok d \<Longrightarrow>
   batched_getSeqRangeTransactions this w a None = Inr (transactions_between a None (txn_store d))"
  by (simp add: batched_getSeqRangeTransactions_def seq_range_None connected_def openCursor_lower
      batched_db_ok_def)

lemma batched_range_Some:
  "db this = Some name \<Longrightarrow> w name = Some d \<Longrightarrow> batched_db_ok d \<Longrightarrow> b \<noteq> 0 \<Longrightarrow> a \<le> b \<Longrightarrow>
   batched_getSeqRangeTransactions this w a (Some b) =
     Inr (transactions_between a (Some b) (txn_store d))"
  by (simp add: batched_getSeqRangeTransactions_def seq_range_bound connected_def openCursor_bound
      batched_db_ok_def)

lemma batched_range_inverted:
  "db this = Some name \<Longrightarrow> b \<noteq> 0 \<Longrightarrow> b < a \<Longrightarrow>
   batched_getSeqRangeTransactions this w a (Some b) = Inl (DOMException DataError)"
  by (simp add: batched_getSeqRangeTransactions_def seq_range_inverted)

lemma simple_range_None:
  "s_db this = Some name \<Longrightarrow> w name = Some d \<Longrightarrow> simple_db_ok d \<Longrightarrow>
   simple_getSeqRangeTransactions this w a None =
     Inr (transactions_between a None (simpletxn_store d))"
  by (simp add: simple_getSeqRangeTransactions_def seq_range_None connected_def openCursor_lower
      simple_db_ok_def)

lemma simple_range_Some:
  "s_db this = Some name \<Longrightarrow> w name = Some d \<Longrightarrow> simple_db_ok d \<Longrightarrow> b \<noteq> 0 \<Longrightarrow> a \<le> b \<Longrightarrow>
   simple_getSeqRangeTransactions this w a (Some b) =
     Inr (transactions_between a (Some b) (simpletxn_store d))"
  by (simp add: simple_getSeqRangeTransactions_def seq_range_bound connected_def openCursor_bound
      simple_db_ok_def)

lemma simple_range_inverted:
  "s_db this = Some name \<Longrightarrow> b \<noteq> 0 \<Longrightarrow> b < a \<Longrightarrow>
   simple_getSeqRangeTransactions this w a (Some b) = Inl (DOMException DataError)"
  by (simp add: simple_getSeqRangeTransactions_def seq_range_inverted)

text \<open>
  Claim C6 says that for every \<open>a \<ge> 1\<close> and every \<open>b\<close> the query returns exactly the
  transactions with \<open>a \<le> id \<le> b\<close>.  On the example logs, with \<open>a = 1\<close> and
  \<open>b = 0\<close> no id is in the interval, and the query returns all four transactions.
\<close>

theorem getSeqRangeTransactions_finish_zero_counterexample:
  "transactions_between 1 (Some 0) (txn_store demo_db) = [] \<and>
   batched_getSeqRangeTransactions demo_log demo_world 1 (Some 0) =
     Inr (map snd (records (txn_store demo_db))) \<and>
   batched_getSeqRangeTransactions demo_log demo_world 1 (Some 0) \<noteq>
     Inr (transactions_between 1 (Some 0) (txn_store demo_db)) \<and>
   simple_getSeqRangeTransactions demo_simple_log demo_simple_world 1 (Some 0) \<noteq>
     Inr (transactions_between 1 (Some 0) (simpletxn_store demo_simple_db))"
  by (simp add: transactions_between_def id_between_def batched_getSeqRangeTransactions_def
      simple_getSeqRangeTransactions_def seq_range_falsy truthy_def connected_def openCursor_def
      demo_defs)

text \<open>
  Claim C6, amended.  On an open log over well-formed stores, in both variants, for
  every \<open>a \<ge> 1\<close>: with \<open>b \<ge> a\<close> the query returns exactly the stored transactions
  whose id is in \<open>[a, b]\<close>, and with \<open>b\<close> omitted exactly those whose id is at least
  \<open>a\<close>, in both cases in the store's order, which is ascending in the id.  A \<open>b\<close>
  below \<open>a\<close> other than 0 is refused by the store with a \<^verbatim>\<open>DataError\<close>.
\<close>

theorem getSeqRangeTransactions_range:
  assumes "db this = Some name" and "w name = Some d" and "batched_db_ok d"
    and "s_db that = Some sname" and "sw sname = Some sd" and "simple_db_ok sd"
    and "1 \<le> a"
  shows
    "(a \<le> b \<longrightarrow>
        batched_getSeqRangeTransactions this w a (Some b) =
          Inr (transactions_between a (Some b) (txn_store d)) \<and>
        simple_getSeqRangeTransactions that sw a (Some b) =
          Inr (transactions_between a (Some b) (simpletxn_store sd))) \<and>
     batched_getSeqRangeTransactions this w a None =
       Inr (transactions_between a None (txn_store d)) \<and>
     simple_getSeqRangeTransactions that sw a None =
       Inr (transactions_between a None (simpletxn_store sd)) \<and>
     ascending_ids (map t_id (transactions_between a (Some b) (txn_store d))) \<and>
     ascending_ids (map t_id (transactions_between a None (txn_store d))) \<and>
     ascending_ids (map t_id (transactions_between a (Some b) (simpletxn_store sd))) \<and>
     ascending_ids (map t_id (transactions_between a None (simpletxn_store sd))) \<and>
     (b \<noteq> 0 \<and> b < a \<longrightarrow>
        batched_getSeqRangeTransactions this w a (Some b) = Inl (DOMException DataError) \<and>
        simple_getSeqRangeTransactions that sw a (Some b) = Inl (DOMException DataError))"
proof -
  have ok: "store_ok t_id (txn_store d)" "store_ok t_id (simpletxn_store sd)"
    using assms(3,6) by (simp_all add: batched_db_ok_def simple_db_ok_def)
  have bounded: "batched_getSeqRangeTransactions this w a (Some b) =
          Inr (transactions_between a (Some b) (txn_store d)) \<and>
        simple_getSeqRangeTransactions that sw a (Some b) =
          Inr (transactions_between a (Some b) (simpletxn_store sd))" if "a \<le> b"
  proof -
    from that assms(7) have "b \<noteq> 0" by simp
    with that show ?thesis
      using assms by (simp add: batched_range_Some simple_range_Some)
  qed
  have inverted: "batched_getSeqRangeTransactions this w a (Some b) = Inl (DOMException DataError) \<and>
        simple_getSeqRangeTransactions that sw a (Some b) = Inl (DOMException DataError)"
    if "b \<noteq> 0 \<and> b < a"
    using that assms by (simp add: batched_range_inverted simple_range_inverted)
  show ?thesis
    using bounded inverted assms ok
    by (simp add: batched_range_None simple_range_None transactions_between_ascending)
qed

theorem getSeqRangeTransactions_range_witness:
  "db demo_log = Some ''log'' \<and> demo_world ''log'' = Some demo_db \<and> batched_db_ok demo_db \<and>
   s_db demo_simple_log = Some ''log'' \<and> demo_simple_world ''log'' = Some demo_simple_db \<and>
   simple_db_ok demo_simple_db \<and> (1::int) \<le> 2 \<and> (2::int) \<le> 3 \<and>
   batched_getSeqRangeTransactions demo_log demo_world 2 (Some 3) =
     Inr [\<lparr>t_id = Some 2, t_time = 2, t_data = ''B''\<rparr>, \<lparr>t_id = Some 3, t_time = 3, t_data = ''C''\<rparr>] \<and>
   simple_getSeqRangeTransactions demo_simple_log demo_simple_world 2 (Some 3) =
     Inr [\<lparr>t_id = Some 2, t_time = 2, t_data = ''B''\<rparr>, \<lparr>t_id = Some 3, t_time = 3, t_data = ''C''\<rparr>] \<and>
   batched_getSeqRangeTransactions demo_log demo_world 2 None =
     Inr [\<lparr>t_id = Some 2, t_time = 2, t_data = ''B''\<rparr>, \<lparr>t_id = Some 3, t_time = 3, t_data = ''C''\<rparr>,
          \<lparr>t_id = Some 4, t_time = 5, t_data = ''D''\<rparr>] \<and>
   simple_getSeqRangeTransactions demo_simple_log demo_simple_world 2 None =
     Inr [\<lparr>t_id = Some 2, t_time = 2, t_data = ''B''\<rparr>, \<lparr>t_id = Some 3, t_time = 3, t_data = ''C''\<rparr>,
          \<lparr>t_id = Some 4, t_time = 5, t_data = ''D''\<rparr>]"
proof -
  have h: "db demo_log = Some ''log''" "demo_world ''log'' = Some demo_db" "batched_db_ok demo_db"
    "s_db demo_simple_log = Some ''log''" "demo_simple_world ''log'' = Some demo_simple_db"
    "simple_db_ok demo_simple_db" "(1::int) \<le> 2"
    by (simp_all add: batched_db_ok_def simple_db_ok_def store_ok_def demo_defs)
  have t: "transactions_between 2 (Some 3) (txn_store demo_db) =
      [\<lparr>t_id = Some 2, t_time = 2, t_data = ''B''\<rparr>, \<lparr>t_id = Some 3, t_time = 3, t_data = ''C''\<rparr>]"
    "transactions_between 2 None (txn_store demo_db) =
      [\<lparr>t_id = Some 2, t_time = 2, t_data = ''B''\<rparr>, \<lparr>t_id = Some 3, t_time = 3, t_data = ''C''\<rparr>,
          \<lparr>t_id = Some 4, t_time = 5, t_data = ''D''\<rparr>]"
    "simpletxn_store demo_simple_db = txn_store demo_db"
    by (simp_all add: transactions_between_def id_between_def demo_defs)
  show ?thesis
    using h getSeqRangeTransactions_range
            [of demo_log "''log''" demo_world demo_db demo_simple_log "''log''" demo_simple_world
                demo_simple_db 2 3]
    by (simp add: t)
qed

section \<open>Range queries over the commits\<close>

lemma resolve_transactions_those:
  "resolve_transactions s ids =
     (case those (map (store_get s) ids) of
        None \<Rightarrow> Inl TRANSACTION_NOT_FOUND
      | Some ts \<Rightarrow> Inr ts)"
  by (induction ids) (auto split: option.splits)

lemma commit_infos_those:
  "list_all (\<lambda>(k, c). c_id c = Some k) recs \<Longrightarrow>
   commit_infos s recs =
     (case those (map (resolved s) (map snd recs)) of
        None \<Rightarrow> Inl TRANSACTION_NOT_FOUND
      | Some infos \<Rightarrow> Inr infos)"
  by (induction recs)
     (auto simp: resolve_transactions_those resolved_def split: option.splits)

lemma list_all_filter: "list_all P xs \<Longrightarrow> list_all P (filter Q xs)"
  by (simp add: list_all_iff)

lemma commits_cursor_lower:
  "store_ok c_id s \<Longrightarrow>
   map snd (openCursor s (Some (LowerBound a))) = commits_between a None s"
  unfolding openCursor_def commits_between_def option.case
  by (rule cursor_by_id [OF store_ok_ids]) (simp_all add: id_between_def)

lemma commits_cursor_bound:
  "store_ok c_id s \<Longrightarrow>
   map snd (openCursor s (Some (Bound a b))) = commits_between a (Some b) s"
  unfolding openCursor_def commits_between_def option.case
  by (rule cursor_by_id [OF store_ok_ids]) (simp_all add: id_between_def)

lemma openCursor_ids:
  "store_ok key_of s \<Longrightarrow> list_all (\<lambda>(k, v). key_of v = Some k) (openCursor s q)"
  by (cases q) (auto simp: openCursor_def list_all_iff dest!: store_ok_ids)

lemma commits_between_ascending:
  "store_ok c_id s \<Longrightarrow> ascending_ids (map c_id (commits_between a b s))"
  using store_ok_ascending [of c_id s]
  by (simp add: commits_between_def ascending_ids_def sorted_wrt_map sorted_wrt_filter)

lemma commits_range_None:
  assumes "db this = Some name" and "w name = Some d" and "batched_db_ok d" and "1 \<le> a"
  shows "batched_getSeqRangeCommits this w a None =
     (case those (map (resolved (txn_store d)) (commits_between a None (commit_store d))) of
        None \<Rightarrow> Inl TRANSACTION_NOT_FOUND
      | Some infos \<Rightarrow> Inr infos)"
proof -
  have ok: "store_ok c_id (commit_store d)"
    using assms(3) by (simp add: batched_db_ok_def)
  show ?thesis
    using assms(1,2,4)
    by (simp add: batched_getSeqRangeCommits_def seq_range_None connected_def
        commit_infos_those [OF openCursor_ids [OF ok]] commits_cursor_lower [OF ok])
qed

lemma commits_range_Some:
  assumes "db this = Some name" and "w name = Some d" and "batched_db_ok d" and "1 \<le> a"
    and "a \<le> b"
  shows "batched_getSeqRangeCommits this w a (Some b) =
     (case those (map (resolved (txn_store d)) (commits_between a (Some b) (commit_store d))) of
        None \<Rightarrow> Inl TRANSACTION_NOT_FOUND
      | Some infos \<Rightarrow> Inr infos)"
proof -
  have ok: "store_ok c_id (commit_store d)"
    using assms(3) by (simp add: batched_db_ok_def)
  have "b \<noteq> 0" using assms(4,5) by simp
  then show ?thesis
    using assms(1,2,4,5)
    by (simp add: batched_getSeqRangeCommits_def seq_range_bound connected_def
        commit_infos_those [OF openCursor_ids [OF ok]] commits_cursor_bound [OF ok])
qed

lemma commits_range_invalid:
  "db this = Some name \<Longrightarrow> a < 1 \<Longrightarrow>
   batched_getSeqRangeCommits this w a b = Inl INVALID_SEQUENCE_ID"
  by (simp add: batched_getSeqRangeCommits_def)

lemma those_map_Some:
  "those (map f xs) = Some ys \<Longrightarrow> map f xs = map Some ys"
  by (induction xs arbitrary: ys) (auto split: option.splits)

lemma those_map_None:
  "those (map f xs) = None \<longleftrightarrow> (\<exists>x \<in> set xs. f x = None)"
  by (induction xs) (auto split: option.splits)

lemma store_get_id:
  assumes "store_ok key_of s" and "store_get s k = Some v"
  shows "key_of v = Some k"
proof -
  from assms(2) have "(k, v) \<in> set (records s)"
    by (auto simp: store_get_def dest: map_of_SomeD)
  with assms(1) show ?thesis
    by (auto simp: store_ok_def list_all_iff)
qed

lemma resolved_SomeD:
  assumes "store_ok t_id s" and "resolved s c = Some info"
  shows "c_id c = Some (ci_id info) \<and> ci_time info = c_time c \<and>
         map (store_get s) (c_transactions c) = map Some (ci_transactions info) \<and>
         map t_id (ci_transactions info) = map Some (c_transactions c)"
proof -
  from assms(2) obtain k ts where
    k: "c_id c = Some k" and ts: "those (map (store_get s) (c_transactions c)) = Some ts"
    and info: "info = \<lparr>ci_id = k, ci_time = c_time c, ci_transactions = ts\<rparr>"
    by (auto simp: resolved_def split: option.splits)
  have m: "map (store_get s) (c_transactions c) = map Some ts"
    using ts by (rule those_map_Some)
  have len: "length (c_transactions c) = length ts"
    using m by (rule map_eq_imp_length_eq)
  have "map t_id ts = map Some (c_transactions c)"
  proof (rule nth_equalityI)
    show "length (map t_id ts) = length (map Some (c_transactions c))"
      using len by simp
  next
    fix i assume "i < length (map t_id ts)"
    then have i: "i < length ts" by simp
    with len have il: "i < length (c_transactions c)"
      by simp
    have "store_get s (c_transactions c ! i) = Some (ts ! i)"
      using arg_cong [OF m, of "\<lambda>xs. xs ! i"] i il by simp
    then have "t_id (ts ! i) = Some (c_transactions c ! i)"
      using assms(1) by (rule store_get_id [rotated])
    then show "map t_id ts ! i = map Some (c_transactions c) ! i"
      using i il by simp
  qed
  with k m info show ?thesis by simp
qed

lemma resolved_None:
  "c_id c \<noteq> None \<Longrightarrow>
   resolved s c = None \<longleftrightarrow> (\<exists>i \<in> set (c_transactions c). store_get s i = None)"
proof -
  assume "c_id c \<noteq> None"
  then have "resolved s c = None \<longleftrightarrow> those (map (store_get s) (c_transactions c)) = None"
    by (auto simp: resolved_def split: option.splits)
  then show ?thesis
    by (simp add: those_map_None)
qed

text \<open>
  Claim C7 says that \<^verbatim>\<open>getSeqRangeCommits(start, finish)\<close> returns one
  \<^verbatim>\<open>CommitInfo\<close> per commit whose id is in the inclusive range.  On the example log,
  with start 1 and finish 0 no id is in the range, and the query returns both
  commits.
\<close>

theorem getSeqRangeCommits_finish_zero_counterexample:
  "commits_between 1 (Some 0) (commit_store demo_db) = [] \<and>
   batched_getSeqRangeCommits demo_log demo_world 1 (Some 0) =
     Inr [\<lparr>ci_id = 1, ci_time = 4,
           ci_transactions = [\<lparr>t_id = Some 1, t_time = 1, t_data = ''A''\<rparr>,
                              \<lparr>t_id = Some 2, t_time = 2, t_data = ''B''\<rparr>,
                              \<lparr>t_id = Some 3, t_time = 3, t_data = ''C''\<rparr>]\<rparr>,
          \<lparr>ci_id = 2, ci_time = 6,
           ci_transactions = [\<lparr>t_id = Some 4, t_time = 5, t_data = ''D''\<rparr>]\<rparr>] \<and>
   batched_getSeqRangeCommits demo_log demo_world 1 (Some 0) \<noteq> Inr []"
  by (simp add: commits_between_def id_between_def batched_getSeqRangeCommits_def
      seq_range_falsy truthy_def connected_def openCursor_def store_get_def demo_defs)

text \<open>
  Claim C7, amended.  On an open batched log over well-formed stores:
  a start below 1 fails with \<^verbatim>\<open>INVALID_SEQUENCE_ID\<close>.  With a start of at least 1 and
  the finish omitted or at least the start, the commits whose id is in the range are
  taken in the store's order, which is ascending in the id; when every id they list is
  the key of a stored transaction, the result is one \<^verbatim>\<open>CommitInfo\<close> per commit, with
  the commit's id and time and the stored transactions of its list, in the list's
  order; when one of the ids is not stored, the call fails with
  \<^verbatim>\<open>TRANSACTION_NOT_FOUND\<close> and returns no part of the result.
\<close>

theorem getSeqRangeCommits_range:
  assumes "db this = Some name" and "w name = Some d" and "batched_db_ok d"
  shows
    "(a < 1 \<longrightarrow> batched_getSeqRangeCommits this w a b = Inl INVALID_SEQUENCE_ID) \<and>
     (1 \<le> a \<and> (case b of None \<Rightarrow> True | Some u \<Rightarrow> a \<le> u) \<longrightarrow>
        batched_getSeqRangeCommits this w a b =
          (case those (map (resolved (txn_store d)) (commits_between a b (commit_store d))) of
             None \<Rightarrow> Inl TRANSACTION_NOT_FOUND
           | Some infos \<Rightarrow> Inr infos)) \<and>
     ascending_ids (map c_id (commits_between a b (commit_store d))) \<and>
     (\<forall>c \<in> set (commits_between a b (commit_store d)).
        (resolved (txn_store d) c = None) =
          (\<exists>i \<in> set (c_transactions c). store_get (txn_store d) i = None)) \<and>
     (\<forall>c info. resolved (txn_store d) c = Some info \<longrightarrow>
        c_id c = Some (ci_id info) \<and> ci_time info = c_time c \<and>
        map (store_get (txn_store d)) (c_transactions c) = map Some (ci_transactions info) \<and>
        map t_id (ci_transactions info) = map Some (c_transactions c))"
proof -
  have ok: "store_ok c_id (commit_store d)" "store_ok t_id (txn_store d)"
    using assms(3) by (simp_all add: batched_db_ok_def)
  have 1: "a < 1 \<longrightarrow> batched_getSeqRangeCommits this w a b = Inl INVALID_SEQUENCE_ID"
    using assms(1) by (simp add: commits_range_invalid)
  have 2: "batched_getSeqRangeCommits this w a b =
          (case those (map (resolved (txn_store d)) (commits_between a b (commit_store d))) of
             None \<Rightarrow> Inl TRANSACTION_NOT_FOUND
           | Some infos \<Rightarrow> Inr infos)"
    if "1 \<le> a \<and> (case b of None \<Rightarrow> True | Some u \<Rightarrow> a \<le> u)"
    using that assms commits_range_None [of this name w d a] commits_range_Some [of this name w d a]
    by (cases b) simp_all
  have 3: "ascending_ids (map c_id (commits_between a b (commit_store d)))"
    using ok(1) by (rule commits_between_ascending)
  have 4: "(resolved (txn_store d) c = None) =
          (\<exists>i \<in> set (c_transactions c). store_get (txn_store d) i = None)"
    if "c \<in> set (commits_between a b (commit_store d))" for c
  proof (rule resolved_None)
    from that show "c_id c \<noteq> None"
      by (auto simp: commits_between_def id_between_def split: option.splits)
  qed
  have 5: "c_id c = Some (ci_id info) \<and> ci_time info = c_time c \<and>
        map (store_get (txn_store d)) (c_transactions c) = map Some (ci_transactions info) \<and>
        map t_id (ci_transactions info) = map Some (c_transactions c)"
    if "resolved (txn_store d) c = Some info" for c info
    using ok(2) that by (rule resolved_SomeD)
  from 1 2 3 4 5 show ?thesis by blast
qed

theorem getSeqRangeCommits_range_witness:
  "db demo_log = Some ''log'' \<and> demo_world ''log'' = Some demo_db \<and> batched_db_ok demo_db \<and>
   demo_corrupt_world ''log'' = Some demo_corrupt_db \<and> batched_db_ok demo_corrupt_db \<and>
   batched_getSeqRangeCommits demo_log demo_world 0 (Some 2) = Inl INVALID_SEQUENCE_ID \<and>
   batched_getSeqRangeCommits demo_log demo_world 2 (Some 3) =
     Inr [\<lparr>ci_id = 2, ci_time = 6,
           ci_transactions = [\<lparr>t_id = Some 4, t_time = 5, t_data = ''D''\<rparr>]\<rparr>] \<and>
   batched_getSeqRangeCommits demo_log demo_world 1 None =
     Inr [\<lparr>ci_id = 1, ci_time = 4,
           ci_transactions = [\<lparr>t_id = Some 1, t_time = 1, t_data = ''A''\<rparr>,
                              \<lparr>t_id = Some 2, t_time = 2, t_data = ''B''\<rparr>,
                              \<lparr>t_id = Some 3, t_time = 3, t_data = ''C''\<rparr>]\<rparr>,
          \<lparr>ci_id = 2, ci_time = 6,
           ci_transactions = [\<lparr>t_id = Some 4, t_time = 5, t_data = ''D''\<rparr>]\<rparr>] \<and>
   batched_getSeqRangeCommits demo_log demo_corrupt_world 1 None = Inl TRANSACTION_NOT_FOUND"
proof -
  have h: "db demo_log = Some ''log''" "demo_world ''log'' = Some demo_db" "batched_db_ok demo_db"
    by (simp_all add: batched_db_ok_def store_ok_def demo_defs)
  have k: "demo_corrupt_world ''log'' = Some demo_corrupt_db" "batched_db_ok demo_corrupt_db"
    by (simp_all add: batched_db_ok_def store_ok_def demo_defs)
  have i: "batched_getSeqRangeCommits demo_log demo_world 0 (Some 2) = Inl INVALID_SEQUENCE_ID"
    using getSeqRangeCommits_range [of demo_log "''log''" demo_world demo_db 0 "Some 2"] h
    by simp
  have e: "batched_getSeqRangeCommits demo_log demo_world 2 (Some 3) =
     Inr [\<lparr>ci_id = 2, ci_time = 6,
           ci_transactions = [\<lparr>t_id = Some 4, t_time = 5, t_data = ''D''\<rparr>]\<rparr>]"
    "batched_getSeqRangeCommits demo_log demo_world 1 None =
     Inr [\<lparr>ci_id = 1, ci_time = 4,
           ci_transactions = [\<lparr>t_id = Some 1, t_time = 1, t_data = ''A''\<rparr>,
                              \<lparr>t_id = Some 2, t_time = 2, t_data = ''B''\<rparr>,
                              \<lparr>t_id = Some 3, t_time = 3, t_data = ''C''\<rparr>]\<rparr>,
          \<lparr>ci_id = 2, ci_time = 6,
           ci_transactions = [\<lparr>t_id = Some 4, t_time = 5, t_data = ''D''\<rparr>]\<rparr>]"
    "batched_getSeqRangeCommits demo_log demo_corrupt_world 1 None = Inl TRANSACTION_NOT_FOUND"
    by (simp_all add: batched_getSeqRangeCommits_def seq_range_None seq_range_bound connected_def
        openCursor_def store_get_def demo_defs)
  have j: "batched_getSeqRangeCommits demo_log demo_world 2 (Some 3) =
      (case those (map (resolved (txn_store demo_db))
                     (commits_between 2 (Some 3) (commit_store demo_db))) of
         None \<Rightarrow> Inl TRANSACTION_NOT_FOUND
       | Some infos \<Rightarrow> Inr infos)"
    using getSeqRangeCommits_range [of demo_log "''log''" demo_world demo_db 2 "Some 3"] h
    by simp
  have n: "batched_getSeqRangeCommits demo_log demo_corrupt_world 1 None =
      (case those (map (resolved (txn_store demo_corrupt_db))
                     (commits_between 1 None (commit_store demo_corrupt_db))) of
         None \<Rightarrow> Inl TRANSACTION_NOT_FOUND
       | Some infos \<Rightarrow> Inr infos)"
    using getSeqRangeCommits_range
            [of demo_log "''log''" demo_corrupt_world demo_corrupt_db 1 None] h(1) k
    by simp
  show ?thesis
    using h k i j n e by simp
qed

section \<open>A falsy finish\<close>

lemma commits_range_inverted:
  "db this = Some name \<Longrightarrow> 1 \<le> a \<Longrightarrow> b \<noteq> 0 \<Longrightarrow> b < a \<Longrightarrow>
   batched_getSeqRangeCommits this w a (Some b) = Inl (DOMException DataError)"
  by (simp add: batched_getSeqRangeCommits_def seq_range_inverted)

lemma cursor_from:
  "openCursor s (Some (LowerBound a)) = filter (\<lambda>(k, v). a \<le> int k) (records s)"
  by (simp add: openCursor_def)

text \<open>
  Claim C10.  In \<^verbatim>\<open>getSeqRangeCommits\<close> and in both \<^verbatim>\<open>getSeqRangeTransactions\<close>, a
  falsy \<^verbatim>\<open>finishId\<close> (0, as much as an omitted one) selects the open-ended range
  from \<^verbatim>\<open>startId\<close>, not the empty range up to 0.  Each query returns what it returns
  with \<^verbatim>\<open>finishId\<close> omitted, and on an open log that is: for the transactions, the
  stored records whose key is at least \<^verbatim>\<open>startId\<close>, in the store's order; for the
  commits, with \<^verbatim>\<open>startId\<close> at least 1, the commit infos of the commits whose key is
  at least \<^verbatim>\<open>startId\<close>.  Over well-formed stores these are the transactions and the
  commits whose id is at least \<^verbatim>\<open>startId\<close>.
\<close>

theorem falsy_finishId_is_omitted:
  assumes "\<not> truthy finishId"
  shows
    "seq_range startId finishId = Inr (LowerBound startId) \<and>
     batched_getSeqRangeCommits this w startId finishId =
       batched_getSeqRangeCommits this w startId None \<and>
     batched_getSeqRangeTransactions this w startId finishId =
       batched_getSeqRangeTransactions this w startId None \<and>
     simple_getSeqRangeTransactions that sw startId finishId =
       simple_getSeqRangeTransactions that sw startId None \<and>
     (db this = Some name \<and> w name = Some d \<longrightarrow>
        batched_getSeqRangeTransactions this w startId finishId =
          Inr (map snd (filter (\<lambda>(k, v). startId \<le> int k) (records (txn_store d)))) \<and>
        (startId < 1 \<longrightarrow>
           batched_getSeqRangeCommits this w startId finishId = Inl INVALID_SEQUENCE_ID) \<and>
        (1 \<le> startId \<longrightarrow>
           batched_getSeqRangeCommits this w startId finishId =
             commit_infos (txn_store d)
               (filter (\<lambda>(k, v). startId \<le> int k) (records (commit_store d)))) \<and>
        (batched_db_ok d \<longrightarrow>
           batched_getSeqRangeTransactions this w startId finishId =
             Inr (transactions_between startId None (txn_store d)) \<and>
           (1 \<le> startId \<longrightarrow>
              batched_getSeqRangeCommits this w startId finishId =
                (case those (map (resolved (txn_store d))
                               (commits_between startId None (commit_store d))) of
                   None \<Rightarrow> Inl TRANSACTION_NOT_FOUND
                 | Some infos \<Rightarrow> Inr infos)))) \<and>
     (s_db that = Some sname \<and> sw sname = Some sd \<longrightarrow>
        simple_getSeqRangeTransactions that sw startId finishId =
          Inr (map snd (filter (\<lambda>(k, v). startId \<le> int k) (records (simpletxn_store sd)))) \<and>
        (simple_db_ok sd \<longrightarrow>
           simple_getSeqRangeTransactions that sw startId finishId =
             Inr (transactions_between startId None (simpletxn_store sd))))"
proof -
  note r = seq_range_falsy [OF assms, of startId]
  have e: "batched_getSeqRangeCommits this w startId finishId =
       batched_getSeqRangeCommits this w startId None"
    "batched_getSeqRangeTransactions this w startId finishId =
       batched_getSeqRangeTransactions this w startId None"
    "simple_getSeqRangeTransactions that sw startId finishId =
       simple_getSeqRangeTransactions that sw startId None"
    by (cases "db this"; cases "s_db that";
        simp add: r seq_range_None batched_getSeqRangeCommits_def
          batched_getSeqRangeTransactions_def simple_getSeqRangeTransactions_def)+
  have b: "batched_getSeqRangeTransactions this w startId None =
          Inr (map snd (filter (\<lambda>(k, v). startId \<le> int k) (records (txn_store d)))) \<and>
        (startId < 1 \<longrightarrow>
           batched_getSeqRangeCommits this w startId None = Inl INVALID_SEQUENCE_ID) \<and>
        (1 \<le> startId \<longrightarrow>
           batched_getSeqRangeCommits this w startId None =
             commit_infos (txn_store d)
               (filter (\<lambda>(k, v). startId \<le> int k) (records (commit_store d))))"
    if "db this = Some name \<and> w name = Some d"
    using that
    by (simp add: batched_getSeqRangeTransactions_def batched_getSeqRangeCommits_def
        seq_range_None connected_def cursor_from)
  have bo: "batched_getSeqRangeTransactions this w startId None =
             Inr (transactions_between startId None (txn_store d)) \<and>
           (1 \<le> startId \<longrightarrow>
              batched_getSeqRangeCommits this w startId None =
                (case those (map (resolved (txn_store d))
                               (commits_between startId None (commit_store d))) of
                   None \<Rightarrow> Inl TRANSACTION_NOT_FOUND
                 | Some infos \<Rightarrow> Inr infos))"
    if "db this = Some name \<and> w name = Some d" and "batched_db_ok d"
    using that
      batched_range_None [where this = this and name = name and w = w and d = d and a = startId]
      commits_range_None [where this = this and name = name and w = w and d = d and a = startId]
    by simp
  have s: "simple_getSeqRangeTransactions that sw startId None =
          Inr (map snd (filter (\<lambda>(k, v). startId \<le> int k) (records (simpletxn_store sd))))"
    if "s_db that = Some sname \<and> sw sname = Some sd"
    using that
    by (simp add: simple_getSeqRangeTransactions_def seq_range_None connected_def cursor_from)
  have so: "simple_getSeqRangeTransactions that sw startId None =
             Inr (transactions_between startId None (simpletxn_store sd))"
    if "s_db that = Some sname \<and> sw sname = Some sd" and "simple_db_ok sd"
    using that
      simple_range_None [where this = that and name = sname and w = sw and d = sd and a = startId]
    by simp
  show ?thesis
    unfolding e using r b bo s so by blast
qed

theorem falsy_finishId_is_omitted_witness:
  "\<not> truthy (Some 0) \<and>
   db demo_log = Some ''log'' \<and> demo_world ''log'' = Some demo_db \<and> batched_db_ok demo_db \<and>
   s_db demo_simple_log = Some ''log'' \<and> demo_simple_world ''log'' = Some demo_simple_db \<and>
   simple_db_ok demo_simple_db \<and>
   seq_range 3 (Some 0) = Inr (LowerBound 3) \<and>
   batched_getSeqRangeTransactions demo_log demo_world 3 (Some 0) =
     Inr [\<lparr>t_id = Some 3, t_time = 3, t_data = ''C''\<rparr>, \<lparr>t_id = Some 4, t_time = 5, t_data = ''D''\<rparr>] \<and>
   batched_getSeqRangeTransactions demo_log demo_world 3 None =
     Inr [\<lparr>t_id = Some 3, t_time = 3, t_data = ''C''\<rparr>, \<lparr>t_id = Some 4, t_time = 5, t_data = ''D''\<rparr>] \<and>
   simple_getSeqRangeTransactions demo_simple_log demo_simple_world 3 (Some 0) =
     Inr [\<lparr>t_id = Some 3, t_time = 3, t_data = ''C''\<rparr>, \<lparr>t_id = Some 4, t_time = 5, t_data = ''D''\<rparr>] \<and>
   simple_getSeqRangeTransactions demo_simple_log demo_simple_world 3 None =
     Inr [\<lparr>t_id = Some 3, t_time = 3, t_data = ''C''\<rparr>, \<lparr>t_id = Some 4, t_time = 5, t_data = ''D''\<rparr>] \<and>
   batched_getSeqRangeCommits demo_log demo_world 2 (Some 0) =
     Inr [\<lparr>ci_id = 2, ci_time = 6,
           ci_transactions = [\<lparr>t_id = Some 4, t_time = 5, t_data = ''D''\<rparr>]\<rparr>] \<and>
   batched_getSeqRangeCommits demo_log demo_world 2 None =
     Inr [\<lparr>ci_id = 2, ci_time = 6,
           ci_transactions = [\<lparr>t_id = Some 4, t_time = 5, t_data = ''D''\<rparr>]\<rparr>] \<and>
   batched_getSeqRangeCommits demo_log demo_world 0 (Some 0) = Inl INVALID_SEQUENCE_ID"
proof -
  have f: "\<not> truthy (Some 0)" by (simp add: truthy_def)
  have h: "db demo_log = Some ''log''" "demo_world ''log'' = Some demo_db" "batched_db_ok demo_db"
    "s_db demo_simple_log = Some ''log''" "demo_simple_world ''log'' = Some demo_simple_db"
    "simple_db_ok demo_simple_db"
    by (simp_all add: batched_db_ok_def simple_db_ok_def store_ok_def demo_defs)
  note t3 = falsy_finishId_is_omitted
    [where finishId = "Some 0" and startId = 3 and this = demo_log and w = demo_world
       and name = "''log''" and d = demo_db and that = demo_simple_log
       and sw = demo_simple_world and sname = "''log''" and sd = demo_simple_db, OF f]
  note t2 = falsy_finishId_is_omitted
    [where finishId = "Some 0" and startId = 2 and this = demo_log and w = demo_world
       and name = "''log''" and d = demo_db and that = demo_simple_log
       and sw = demo_simple_world and sname = "''log''" and sd = demo_simple_db, OF f]
  note t0 = falsy_finishId_is_omitted
    [where finishId = "Some 0" and startId = 0 and this = demo_log and w = demo_world
       and name = "''log''" and d = demo_db and that = demo_simple_log
       and sw = demo_simple_world and sname = "''log''" and sd = demo_simple_db, OF f]
  have v: "transactions_between 3 None (txn_store demo_db) =
      [\<lparr>t_id = Some 3, t_time = 3, t_data = ''C''\<rparr>, \<lparr>t_id = Some 4, t_time = 5, t_data = ''D''\<rparr>]"
    "transactions_between 3 None (simpletxn_store demo_simple_db) =
      [\<lparr>t_id = Some 3, t_time = 3, t_data = ''C''\<rparr>, \<lparr>t_id = Some 4, t_time = 5, t_data = ''D''\<rparr>]"
    by (simp_all add: transactions_between_def id_between_def demo_defs)
  have a: "batched_getSeqRangeTransactions demo_log demo_world 3 (Some 0) =
      Inr (transactions_between 3 None (txn_store demo_db))"
    "batched_getSeqRangeTransactions demo_log demo_world 3 (Some 0) =
      batched_getSeqRangeTransactions demo_log demo_world 3 None"
    "simple_getSeqRangeTransactions demo_simple_log demo_simple_world 3 (Some 0) =
      Inr (transactions_between 3 None (simpletxn_store demo_simple_db))"
    "simple_getSeqRangeTransactions demo_simple_log demo_simple_world 3 (Some 0) =
      simple_getSeqRangeTransactions demo_simple_log demo_simple_world 3 None"
    "seq_range 3 (Some 0) = Inr (LowerBound 3)"
    using t3 h by blast+
  have c: "batched_getSeqRangeCommits demo_log demo_world 2 (Some 0) =
      batched_getSeqRangeCommits demo_log demo_world 2 None"
    using t2 by blast
  have "(0::int) < 1 \<longrightarrow>
      batched_getSeqRangeCommits demo_log demo_world 0 (Some 0) = Inl INVALID_SEQUENCE_ID"
    using t0 h by blast
  then have i: "batched_getSeqRangeCommits demo_log demo_world 0 (Some 0) = Inl INVALID_SEQUENCE_ID"
    by simp
  have g: "batched_getSeqRangeCommits demo_log demo_world 2 None =
     Inr [\<lparr>ci_id = 2, ci_time = 6,
           ci_transactions = [\<lparr>t_id = Some 4, t_time = 5, t_data = ''D''\<rparr>]\<rparr>]"
    by (simp add: batched_getSeqRangeCommits_def seq_range_None connected_def openCursor_def
        store_get_def demo_defs)
  show ?thesis
    using f h a [unfolded v] c i g by simp
qed

section \<open>Replay\<close>

lemma scan_of_Nil: "scan_of (Inr ()) [] []"
  by (simp add: scan_of_def)

lemma scan_of_throw: "scan_of (Inl (Thrown m)) [(x, Some m)] (x # xs)"
  by (simp add: scan_of_def)

lemma scan_of_Cons:
  assumes "scan_of r vs xs"
  shows "scan_of r ((x, None) # vs) (x # xs)"
proof (cases r)
  case (Inl e)
  with assms show ?thesis
    by (cases vs) (auto simp: scan_of_def)
next
  case (Inr u)
  with assms show ?thesis
    by (auto simp: scan_of_def)
qed

lemma traced_step:
  "callback d s = (x, s1) \<Longrightarrow> traced callback d (tr, s) = (x, tr @ [(d, x)], s1)"
  by (simp add: traced_def)

lemma replay_loop_traced:
  "case replay_loop (traced callback) recs (tr0, s) of
     (r, tr, s') \<Rightarrow>
       replay_loop callback recs s = (r, s') \<and>
       (\<exists>vs. tr = tr0 @ vs \<and> scan_of r vs (map (t_data \<circ> snd) recs))"
proof (induction recs arbitrary: tr0 s)
  case Nil
  then show ?case by (simp add: scan_of_Nil)
next
  case (Cons rec recs)
  obtain k txn where rec: "rec = (k, txn)" by (cases rec)
  obtain x s1 where cb: "callback (t_data txn) s = (x, s1)" by (cases "callback (t_data txn) s")
  have st: "traced callback (t_data txn) (tr0, s) = (x, tr0 @ [(t_data txn, x)], s1)"
    using cb by (simp add: traced_def)
  show ?case
  proof (cases x)
    case None
    obtain r tr s' where
      l: "replay_loop (traced callback) recs (tr0 @ [(t_data txn, None)], s1) = (r, tr, s')"
      by (cases "replay_loop (traced callback) recs (tr0 @ [(t_data txn, None)], s1)")
    have "replay_loop callback recs s1 = (r, s') \<and>
       (\<exists>vs. tr = (tr0 @ [(t_data txn, None)]) @ vs \<and> scan_of r vs (map (t_data \<circ> snd) recs))"
      using Cons.IH [where ?tr0.0 = "tr0 @ [(t_data txn, None)]" and s = s1]
      unfolding l prod.case .
    then obtain vs where
      u: "replay_loop callback recs s1 = (r, s')"
      and tr: "tr = (tr0 @ [(t_data txn, None)]) @ vs"
      and sc: "scan_of r vs (map (t_data \<circ> snd) recs)"
      by blast
    have "scan_of r ((t_data txn, None) # vs) (map (t_data \<circ> snd) (rec # recs))"
      using scan_of_Cons [OF sc] by (simp add: rec)
    moreover have "tr = tr0 @ (t_data txn, None) # vs"
      using tr by simp
    ultimately show ?thesis
      using None l u by (simp add: rec cb st comp_def)
  next
    case (Some m)
    have "scan_of (Inl (Thrown m)) [(t_data txn, Some m)] (map (t_data \<circ> snd) (rec # recs))"
      by (simp add: rec scan_of_throw)
    then show ?thesis
      using Some by (simp add: rec cb st comp_def)
  qed
qed

lemma batched_run_result:
  assumes "db this = Some name" and "w name = Some d"
  shows "case batched_run ops this w of
           (this', w') \<Rightarrow>
             db this' = Some name \<and>
             (\<exists>d'. w' name = Some d' \<and>
                (batched_db_ok d \<longrightarrow> batched_db_ok d') \<and>
                map (t_data \<circ> snd) (records (txn_store d')) =
                  map (t_data \<circ> snd) (records (txn_store d)) @
                  committed_appends (map t_data (buffer this)) ops)"
  using assms
proof (induction ops arbitrary: this w d)
  case Nil
  then show ?case by simp
next
  case (Cons op ops)
  show ?case
  proof (cases op)
    case (Append now x)
    let ?this1 = "this\<lparr>buffer := buffer this @ [\<lparr>t_id = None, t_time = now, t_data = x\<rparr>]\<rparr>"
    have a: "batched_append this now x = (call_hook (onappend (callbacks this)) x, ?this1)"
      using Cons.prems(1) by (simp add: batched_append_def)
    have run: "batched_run (op # ops) this w = batched_run ops ?this1 w"
      by (simp add: Append a)
    have 1: "db ?this1 = Some name" using Cons.prems(1) by simp
    have 3: "committed_appends (map t_data (buffer ?this1)) ops =
               committed_appends (map t_data (buffer this)) (op # ops)"
      by (simp add: Append)
    show ?thesis
      unfolding run 3 [symmetric]
      using Cons.IH [where this = ?this1 and w = w and d = d, OF 1 Cons.prems(2)] .
  next
    case (CommitOp fault now)
    show ?thesis
    proof (cases "fault_hits fault (length (buffer this))")
      case True
      have run: "batched_run (op # ops) this w = batched_run ops this w"
        using batched_commit_fault
                [where this = this and name = name and w = w and d = d and fault = fault
                   and now = now, OF Cons.prems True]
        by (simp add: CommitOp)
      have 3: "committed_appends (map t_data (buffer this)) ops =
                 committed_appends (map t_data (buffer this)) (op # ops)"
        using True by (simp add: CommitOp)
      show ?thesis
        unfolding run 3 [symmetric]
        using Cons.IH [where this = this and w = w and d = d, OF Cons.prems] .
    next
      case False
      let ?d1 = "committed_db now (buffer this) d"
      let ?this1 = "this\<lparr>buffer := []\<rparr>"
      let ?w1 = "w(name \<mapsto> ?d1)"
      have c: "batched_commit this w fault now = (Inr (), ?this1, ?w1)"
        using Cons.prems False by (rule batched_commit_no_fault)
      have run: "batched_run (op # ops) this w = batched_run ops ?this1 ?w1"
        by (simp add: CommitOp c)
      have 1: "db ?this1 = Some name" using Cons.prems(1) by simp
      have 2: "?w1 name = Some ?d1" by simp
      have 3: "map (t_data \<circ> snd) (records (txn_store ?d1)) =
                 map (t_data \<circ> snd) (records (txn_store d)) @ map t_data (buffer this)"
        by (simp add: committed_db_def map_data_stored_as)
      obtain this' w' where r: "batched_run ops ?this1 ?w1 = (this', w')"
        by (cases "batched_run ops ?this1 ?w1")
      from Cons.IH [where this = ?this1 and w = ?w1 and d = ?d1, OF 1 2]
      obtain d' where p: "db this' = Some name" "w' name = Some d'"
        "batched_db_ok ?d1 \<longrightarrow> batched_db_ok d'"
        "map (t_data \<circ> snd) (records (txn_store d')) =
           map (t_data \<circ> snd) (records (txn_store ?d1)) @
           committed_appends (map t_data (buffer ?this1)) ops"
        unfolding r prod.case by blast
      have "map (t_data \<circ> snd) (records (txn_store d')) =
              map (t_data \<circ> snd) (records (txn_store d)) @
              committed_appends (map t_data (buffer this)) (op # ops)"
        using p(4) False unfolding 3 by (simp add: CommitOp)
      moreover have "batched_db_ok d \<longrightarrow> batched_db_ok d'"
        using p(3) batched_db_ok_committed [of d now "buffer this"] by blast
      ultimately show ?thesis
        unfolding run r prod.case using p(1,2) by blast
    qed
  qed
qed

lemma simple_append_rejected:
  "s_db this = Some name \<Longrightarrow> w name = Some d \<Longrightarrow>
   simple_append this w (Some e) now x = (Inl (DOMException e), this, w)"
  by (simp add: simple_append_def)

lemma simple_run_result:
  assumes "s_db this = Some name" and "w name = Some d"
  shows "case simple_run ops this w of
           (this', w') \<Rightarrow>
             s_db this' = Some name \<and>
             (\<exists>d'. w' name = Some d' \<and>
                (simple_db_ok d \<longrightarrow> simple_db_ok d') \<and>
                map (t_data \<circ> snd) (records (simpletxn_store d')) =
                  map (t_data \<circ> snd) (records (simpletxn_store d)) @ completed_appends ops)"
  using assms
proof (induction ops arbitrary: this w d)
  case Nil
  then show ?case by (simp add: completed_appends_def)
next
  case (Cons op ops)
  obtain rejects now x where op: "op = (rejects, now, x)" by (cases op)
  show ?case
  proof (cases rejects)
    case (Some e)
    have run: "simple_run (op # ops) this w = simple_run ops this w"
      using simple_append_rejected
              [where this = this and name = name and w = w and d = d and e = e and now = now
                 and x = x, OF Cons.prems]
      by (simp add: op Some)
    have 3: "completed_appends (op # ops) = completed_appends ops"
      by (simp add: completed_appends_def op Some)
    show ?thesis
      unfolding run 3
      using Cons.IH [where this = this and w = w and d = d, OF Cons.prems] .
  next
    case None
    let ?s1 = "snd (store_add (\<lambda>k v. v\<lparr>t_id := Some k\<rparr>) (simpletxn_store d)
                      \<lparr>t_id = None, t_time = now, t_data = x\<rparr>)"
    let ?d1 = "d\<lparr>simpletxn_store := ?s1\<rparr>"
    let ?w1 = "w(name \<mapsto> ?d1)"
    have a: "simple_append this w None now x =
               (call_hook (onappend (s_callbacks this)) x, this, ?w1)"
      using Cons.prems by (simp add: simple_append_def store_add_def Let_def)
    have run: "simple_run (op # ops) this w = simple_run ops this ?w1"
      by (simp add: op None a)
    have 2: "?w1 name = Some ?d1" by simp
    have 3: "map (t_data \<circ> snd) (records (simpletxn_store ?d1)) =
               map (t_data \<circ> snd) (records (simpletxn_store d)) @ [x]"
      by (simp add: store_add_def Let_def)
    have 4: "simple_db_ok d \<longrightarrow> simple_db_ok ?d1"
      using store_ok_add [of t_id "simpletxn_store d" "\<lambda>k v. v\<lparr>t_id := Some k\<rparr>"]
      by (simp add: simple_db_ok_def)
    have 5: "completed_appends (op # ops) = x # completed_appends ops"
      by (simp add: completed_appends_def op None)
    obtain this' w' where r: "simple_run ops this ?w1 = (this', w')"
      by (cases "simple_run ops this ?w1")
    from Cons.IH [where this = this and w = ?w1 and d = ?d1, OF Cons.prems(1) 2]
    obtain d' where p: "s_db this' = Some name" "w' name = Some d'"
      "simple_db_ok ?d1 \<longrightarrow> simple_db_ok d'"
      "map (t_data \<circ> snd) (records (simpletxn_store d')) =
         map (t_data \<circ> snd) (records (simpletxn_store ?d1)) @ completed_appends ops"
      unfolding r prod.case by blast
    have "map (t_data \<circ> snd) (records (simpletxn_store d')) =
            map (t_data \<circ> snd) (records (simpletxn_store d)) @ completed_appends (op # ops)"
      using p(4) unfolding 3 5 by simp
    moreover have "simple_db_ok d \<longrightarrow> simple_db_ok d'"
      using p(3) 4 by blast
    ultimately show ?thesis
      unfolding run r prod.case using p(1,2) by blast
  qed
qed

text \<open>
  Claim C5.  On an open log over well-formed stores, in both variants: the stored
  transactions are in strictly increasing id order; \<^verbatim>\<open>replay(callback)\<close> calls the
  callback once per stored transaction, in that order, with the transaction's data,
  up to the first invocation that throws, fails with what that invocation threw and
  makes no invocation after it; and after a run of appends and commits (batched) or
  of appends (simple), whichever of them the store fails, the data a replay observes
  is the data there was followed by the data of the committed appends, in the order
  of the appends, the ids still in strictly increasing order.
\<close>

theorem replay_in_append_order:
  assumes "db this = Some name" and "w name = Some d" and "batched_db_ok d"
    and "s_db that = Some sname" and "sw sname = Some sd" and "simple_db_ok sd"
  shows
    "ascending_ids (map (t_id \<circ> snd) (records (txn_store d))) \<and>
     (case batched_replay this w (traced callback) ([], s) of
        (r, vs, s') \<Rightarrow>
          batched_replay this w callback s = (r, s') \<and>
          scan_of r vs (map (t_data \<circ> snd) (records (txn_store d)))) \<and>
     (case batched_run ops this w of
        (this', w') \<Rightarrow>
          batched_replay this' w' (\<lambda>x u. (None, u @ [x])) [] =
            (Inr (), map (t_data \<circ> snd) (records (txn_store d)) @
                     committed_appends (map t_data (buffer this)) ops) \<and>
          (case w' name of
             None \<Rightarrow> False
           | Some d' \<Rightarrow> ascending_ids (map (t_id \<circ> snd) (records (txn_store d'))))) \<and>
     ascending_ids (map (t_id \<circ> snd) (records (simpletxn_store sd))) \<and>
     (case simple_replay that sw (traced callback) ([], s) of
        (r, vs, s') \<Rightarrow>
          simple_replay that sw callback s = (r, s') \<and>
          scan_of r vs (map (t_data \<circ> snd) (records (simpletxn_store sd)))) \<and>
     (case simple_run sops that sw of
        (that', sw') \<Rightarrow>
          simple_replay that' sw' (\<lambda>x u. (None, u @ [x])) [] =
            (Inr (), map (t_data \<circ> snd) (records (simpletxn_store sd)) @ completed_appends sops) \<and>
          (case sw' sname of
             None \<Rightarrow> False
           | Some sd' \<Rightarrow> ascending_ids (map (t_id \<circ> snd) (records (simpletxn_store sd')))))"
proof -
  have ok: "store_ok t_id (txn_store d)" "store_ok t_id (simpletxn_store sd)"
    using assms(3,6) by (simp_all add: batched_db_ok_def simple_db_ok_def)
  have b1: "ascending_ids (map (t_id \<circ> snd) (records (txn_store d)))"
    using ok(1) by (rule store_ok_ascending)
  have s1: "ascending_ids (map (t_id \<circ> snd) (records (simpletxn_store sd)))"
    using ok(2) by (rule store_ok_ascending)
  have b2: "case batched_replay this w (traced callback) ([], s) of
        (r, vs, s') \<Rightarrow>
          batched_replay this w callback s = (r, s') \<and>
          scan_of r vs (map (t_data \<circ> snd) (records (txn_store d)))"
    using replay_loop_traced [where callback = callback and recs = "records (txn_store d)"
            and ?tr0.0 = "[]" and s = s] assms(1,2)
    by (simp add: batched_replay_def connected_def openCursor_def)
  have s2: "case simple_replay that sw (traced callback) ([], s) of
        (r, vs, s') \<Rightarrow>
          simple_replay that sw callback s = (r, s') \<and>
          scan_of r vs (map (t_data \<circ> snd) (records (simpletxn_store sd)))"
    using replay_loop_traced [where callback = callback and recs = "records (simpletxn_store sd)"
            and ?tr0.0 = "[]" and s = s] assms(4,5)
    by (simp add: simple_replay_def connected_def openCursor_def)
  have b3: "case batched_run ops this w of
        (this', w') \<Rightarrow>
          batched_replay this' w' (\<lambda>x u. (None, u @ [x])) [] =
            (Inr (), map (t_data \<circ> snd) (records (txn_store d)) @
                     committed_appends (map t_data (buffer this)) ops) \<and>
          (case w' name of
             None \<Rightarrow> False
           | Some d' \<Rightarrow> ascending_ids (map (t_id \<circ> snd) (records (txn_store d'))))"
  proof -
    obtain this' w' where r: "batched_run ops this w = (this', w')"
      by (cases "batched_run ops this w")
    from batched_run_result [where this = this and name = name and w = w and d = d and ops = ops,
        OF assms(1,2)]
    obtain d' where p: "db this' = Some name" "w' name = Some d'" "batched_db_ok d'"
      "map (t_data \<circ> snd) (records (txn_store d')) =
         map (t_data \<circ> snd) (records (txn_store d)) @
         committed_appends (map t_data (buffer this)) ops"
      unfolding r prod.case using assms(3) by blast
    have "store_ok t_id (txn_store d')"
      using p(3) by (simp add: batched_db_ok_def)
    then have "ascending_ids (map (t_id \<circ> snd) (records (txn_store d')))"
      by (rule store_ok_ascending)
    moreover have "batched_replay this' w' (\<lambda>x u. (None, u @ [x])) [] =
            (Inr (), map (t_data \<circ> snd) (records (txn_store d')))"
      using p(1,2)
      by (simp add: batched_replay_def connected_def openCursor_def replay_loop_recorder)
    ultimately show ?thesis
      unfolding r prod.case using p(2,4) by simp
  qed
  have s3: "case simple_run sops that sw of
        (that', sw') \<Rightarrow>
          simple_replay that' sw' (\<lambda>x u. (None, u @ [x])) [] =
            (Inr (), map (t_data \<circ> snd) (records (simpletxn_store sd)) @ completed_appends sops) \<and>
          (case sw' sname of
             None \<Rightarrow> False
           | Some sd' \<Rightarrow> ascending_ids (map (t_id \<circ> snd) (records (simpletxn_store sd'))))"
  proof -
    obtain that' sw' where r: "simple_run sops that sw = (that', sw')"
      by (cases "simple_run sops that sw")
    from simple_run_result [where this = that and name = sname and w = sw and d = sd
        and ops = sops, OF assms(4,5)]
    obtain sd' where p: "s_db that' = Some sname" "sw' sname = Some sd'" "simple_db_ok sd'"
      "map (t_data \<circ> snd) (records (simpletxn_store sd')) =
         map (t_data \<circ> snd) (records (simpletxn_store sd)) @ completed_appends sops"
      unfolding r prod.case using assms(6) by blast
    have "store_ok t_id (simpletxn_store sd')"
      using p(3) by (simp add: simple_db_ok_def)
    then have "ascending_ids (map (t_id \<circ> snd) (records (simpletxn_store sd')))"
      by (rule store_ok_ascending)
    moreover have "simple_replay that' sw' (\<lambda>x u. (None, u @ [x])) [] =
            (Inr (), map (t_data \<circ> snd) (records (simpletxn_store sd')))"
      using p(1,2)
      by (simp add: simple_replay_def connected_def openCursor_def replay_loop_recorder)
    ultimately show ?thesis
      unfolding r prod.case using p(2,4) by simp
  qed
  from b1 b2 b3 s1 s2 s3 show ?thesis by blast
qed

theorem replay_in_append_order_witness:
  "db demo_log = Some ''log'' \<and> demo_world ''log'' = Some demo_db \<and> batched_db_ok demo_db \<and>
   s_db demo_simple_log = Some ''log'' \<and> demo_simple_world ''log'' = Some demo_simple_db \<and>
   simple_db_ok demo_simple_db \<and>
   batched_replay demo_log demo_world
       (traced (\<lambda>x u. (if x = ''C'' then Some ''boom'' else None, u))) ([], ()) =
     (Inl (Thrown ''boom''), [(''A'', None), (''B'', None), (''C'', Some ''boom'')], ()) \<and>
   simple_replay demo_simple_log demo_simple_world
       (traced (\<lambda>x u. (if x = ''C'' then Some ''boom'' else None, u))) ([], ()) =
     (Inl (Thrown ''boom''), [(''A'', None), (''B'', None), (''C'', Some ''boom'')], ()) \<and>
   (case batched_run [Append 7 ''E'', CommitOp DoneFault 8, CommitOp NoFault 9] demo_log demo_world of
      (this', w') \<Rightarrow>
        batched_replay this' w' (\<lambda>x u. (None, u @ [x])) [] =
          (Inr (), [''A'', ''B'', ''C'', ''D'', ''E''])) \<and>
   (case simple_run [(Some AbortError, 7, ''X''), (None, 8, ''E'')] demo_simple_log demo_simple_world of
      (that', sw') \<Rightarrow>
        simple_replay that' sw' (\<lambda>x u. (None, u @ [x])) [] =
          (Inr (), [''A'', ''B'', ''C'', ''D'', ''E''])) \<and>
   batched_db_ok (batched_upgrade :: string BatchedTransactionLogDB) \<and>
   (case batched_run demo_ops demo_log (batched_openDB Map.empty ''log'') of
      (this', w') \<Rightarrow>
        w' ''log'' = Some demo_db \<and>
        batched_replay this' w' (\<lambda>x u. (None, u @ [x])) [] =
          (Inr (), [''A'', ''B'', ''C'', ''D'']))"
proof -
  let ?cb = "\<lambda>x (u::unit). (if x = ''C'' then Some ''boom'' else None, u)"
  have h: "db demo_log = Some ''log''" "demo_world ''log'' = Some demo_db" "batched_db_ok demo_db"
    "s_db demo_simple_log = Some ''log''" "demo_simple_world ''log'' = Some demo_simple_db"
    "simple_db_ok demo_simple_db"
    by (simp_all add: batched_db_ok_def simple_db_ok_def store_ok_def demo_defs)
  have f: "batched_openDB Map.empty ''log'' ''log'' = Some (batched_upgrade :: string BatchedTransactionLogDB)"
    "batched_db_ok (batched_upgrade :: string BatchedTransactionLogDB)"
    by (simp_all add: batched_openDB_def batched_db_ok_upgrade)
  note t1 = replay_in_append_order
    [where this = demo_log and name = "''log''" and w = demo_world and d = demo_db
       and that = demo_simple_log and sname = "''log''" and sw = demo_simple_world
       and sd = demo_simple_db and callback = ?cb and s = "()"
       and ops = "[Append 7 ''E'', CommitOp DoneFault 8, CommitOp NoFault 9]"
       and sops = "[(Some AbortError, 7, ''X''), (None, 8, ''E'')]", OF h]
  note t2 = replay_in_append_order
    [where this = demo_log and name = "''log''" and w = "batched_openDB Map.empty ''log''"
       and d = batched_upgrade
       and that = demo_simple_log and sname = "''log''" and sw = demo_simple_world
       and sd = demo_simple_db and callback = ?cb and s = "()"
       and ops = demo_ops and sops = "[]", OF h(1) f h(4,5,6)]
  have d: "map (t_data \<circ> snd) (records (txn_store demo_db)) = [''A'', ''B'', ''C'', ''D'']"
    "map (t_data \<circ> snd) (records (simpletxn_store demo_simple_db)) = [''A'', ''B'', ''C'', ''D'']"
    "map (t_data \<circ> snd) (records (txn_store (batched_upgrade :: string BatchedTransactionLogDB))) = []"
    "buffer demo_log = []"
    "committed_appends [] demo_ops = [''A'', ''B'', ''C'', ''D'']"
    by (simp_all add: demo_defs demo_ops_def batched_upgrade_def createObjectStore_def
        fault_hits_def)
  have e1: "batched_replay demo_log demo_world (traced ?cb) ([], ()) =
     (Inl (Thrown ''boom''), [(''A'', None), (''B'', None), (''C'', Some ''boom'')], ())"
    "simple_replay demo_simple_log demo_simple_world (traced ?cb) ([], ()) =
     (Inl (Thrown ''boom''), [(''A'', None), (''B'', None), (''C'', Some ''boom'')], ())"
    by (simp_all add: batched_replay_def simple_replay_def connected_def openCursor_def
        traced_def demo_defs)
  have e2: "snd (batched_run demo_ops demo_log (batched_openDB Map.empty ''log'')) ''log'' =
      Some demo_db"
    by (simp add: demo_ops_def batched_append_def batched_commit_def commit_try_def
        transaction_def store_add_def falsy_key_def durable_def batched_openDB_def
        batched_upgrade_def createObjectStore_def Let_def demo_defs)
  from t1 have r1: "case batched_run [Append 7 ''E'', CommitOp DoneFault 8, CommitOp NoFault 9] demo_log demo_world of
      (this', w') \<Rightarrow>
        batched_replay this' w' (\<lambda>x u. (None, u @ [x])) [] =
          (Inr (), [''A'', ''B'', ''C'', ''D'', ''E''])"
    by (simp add: d fault_hits_def completed_appends_def split: prod.splits)
  from t1 have r2: "case simple_run [(Some AbortError, 7, ''X''), (None, 8, ''E'')] demo_simple_log demo_simple_world of
      (that', sw') \<Rightarrow>
        simple_replay that' sw' (\<lambda>x u. (None, u @ [x])) [] =
          (Inr (), [''A'', ''B'', ''C'', ''D'', ''E''])"
    by (simp add: d fault_hits_def completed_appends_def split: prod.splits)
  from t2 have r3: "case batched_run demo_ops demo_log (batched_openDB Map.empty ''log'') of
      (this', w') \<Rightarrow>
        batched_replay this' w' (\<lambda>x u. (None, u @ [x])) [] =
          (Inr (), [''A'', ''B'', ''C'', ''D''])"
    by (simp add: d fault_hits_def completed_appends_def split: prod.splits)
  show ?thesis
    using h f(2) e1 e2 r1 r2 r3 by (simp split: prod.splits)
qed

end
